theory Spec2Isabelle
  imports Complex_Main
begin

section \<open>Bit strings, errors and control flow\<close>

text \<open>
  The payload handed to the decoders of \<^verbatim>\<open>libssr.py\<close> is a \<^verbatim>\<open>bitstring.BitArray\<close>:
  a sequence of bits, most significant first. It is a list of booleans here.
  A slice \<^verbatim>\<open>payload[a:b]\<close> is clamped to the length of the payload, as Python slices are,
  so it may be shorter than \<^verbatim>\<open>b - a\<close> and even empty. The properties \<^verbatim>\<open>.uint\<close> and
  \<^verbatim>\<open>.int\<close> of a slice raise \<^verbatim>\<open>bitstring.InterpretError\<close> on an empty slice and read
  whatever bits there are otherwise. A bit array in a boolean context is true when one
  of its bits is set, and indexing it out of range raises \<^verbatim>\<open>IndexError\<close>.
\<close>

type_synonym bits = "bool list"

datatype error =
    InterpretError   \<comment> \<open>\<^verbatim>\<open>.uint\<close> or \<^verbatim>\<open>.int\<close> of an empty slice\<close>
  | ReadError        \<comment> \<open>\<^verbatim>\<open>payload.read(n)\<close> with fewer than \<^verbatim>\<open>n\<close> bits left\<close>
  | IndexError       \<comment> \<open>index out of range\<close>
  | KeyError         \<comment> \<open>missing dictionary key\<close>
  | NameError        \<comment> \<open>a name that is bound nowhere\<close>
  | Exception string \<comment> \<open>\<^verbatim>\<open>raise Exception(...)\<close> of the source\<close>

text \<open>
  A statement of a decoder either raises, executes \<^verbatim>\<open>return 0\<close> (the source's way to say
  that the payload is too short), or goes on with a value.
\<close>

datatype 'a flow = Raise error | Return0 | Next 'a

fun bindF :: "'a flow \<Rightarrow> ('a \<Rightarrow> 'b flow) \<Rightarrow> 'b flow" where
  "bindF (Raise e) f = Raise e"
| "bindF Return0 f = Return0"
| "bindF (Next x) f = f x"

text \<open>A \<^verbatim>\<open>for\<close> loop over a list, threading the variables the body assigns.\<close>

fun forF :: "'a list \<Rightarrow> 'acc \<Rightarrow> ('a \<Rightarrow> 'acc \<Rightarrow> 'acc flow) \<Rightarrow> 'acc flow" where
  "forF [] acc body = Next acc"
| "forF (x # xs) acc body = bindF (body x acc) (\<lambda>acc'. forF xs acc' body)"

definition bslice :: "bits \<Rightarrow> nat \<Rightarrow> nat \<Rightarrow> bits" where
  "bslice payload a b = take (b - a) (drop a payload)"

definition bits_nat :: "bits \<Rightarrow> nat" where
  "bits_nat bs = foldl (\<lambda>acc b. 2 * acc + (if b then 1 else 0)) 0 bs"

definition uint_of :: "bits \<Rightarrow> nat flow" where
  "uint_of bs = (if bs = [] then Raise InterpretError else Next (bits_nat bs))"

definition bits_int :: "bits \<Rightarrow> int" where
  "bits_int bs = (if hd bs then int (bits_nat bs) - 2 ^ length bs else int (bits_nat bs))"

definition int_of :: "bits \<Rightarrow> int flow" where
  "int_of bs = (if bs = [] then Raise InterpretError else Next (bits_int bs))"

definition truthy :: "bits \<Rightarrow> bool" where
  "truthy bs = (True \<in> set bs)"

definition bit_at :: "bits \<Rightarrow> nat \<Rightarrow> bool flow" where
  "bit_at bs i = (if i < length bs then Next (bs ! i) else Raise IndexError)"

text \<open>
  The idiom \<^verbatim>\<open>x = payload[pos:pos+n].uint; pos += n\<close> of the source: the value and the
  new position.
\<close>

definition get_bits :: "bits \<Rightarrow> nat \<Rightarrow> nat \<Rightarrow> (bits \<times> nat) flow" where
  "get_bits payload n pos = Next (bslice payload pos (pos + n), pos + n)"

definition get_uint :: "bits \<Rightarrow> nat \<Rightarrow> nat \<Rightarrow> (nat \<times> nat) flow" where
  "get_uint payload n pos =
     bindF (uint_of (bslice payload pos (pos + n))) (\<lambda>v. Next (v, pos + n))"

definition get_int :: "bits \<Rightarrow> nat \<Rightarrow> nat \<Rightarrow> (int \<times> nat) flow" where
  "get_int payload n pos =
     bindF (int_of (bslice payload pos (pos + n))) (\<lambda>v. Next (v, pos + n))"

section \<open>Constants and tables of libssr.py\<close>

text \<open>
  Python floats are modelled by exact rationals. The integer \<^verbatim>\<open>0\<close> and the float
  \<^verbatim>\<open>0.0\<close> are equal in Python and print alike under the \<^verbatim>\<open>f\<close> formats of the trace,
  so both are the rational \<open>0\<close>.
\<close>

definition INVALID :: rat where
  "INVALID = 0"

definition HAS_VI :: "nat list" where
  "HAS_VI = [5, 10, 15, 20, 30, 60, 90, 120, 180, 240, 300, 600, 900, 1800, 3600, 0]"

definition gnssid2satsys :: "nat \<Rightarrow> string flow" where
  "gnssid2satsys gnssid =
     (if gnssid = 0 then Next ''G''
      else if gnssid = 1 then Next ''R''
      else if gnssid = 2 then Next ''E''
      else if gnssid = 3 then Next ''C''
      else if gnssid = 4 then Next ''J''
      else if gnssid = 5 then Next ''S''
      else Raise (Exception ''undefined gnssid''))"

definition list_get :: "'a list \<Rightarrow> nat \<Rightarrow> 'a flow" where
  "list_get xs i = (if i < length xs then Next (xs ! i) else Raise IndexError)"

definition sigmask2signame :: "string \<Rightarrow> nat \<Rightarrow> string flow" where
  "sigmask2signame satsys sigmask =
     (if satsys = ''G'' then
        list_get [''L1 C/A'', ''L1 P'', ''L1 Z-tracking'', ''L1C(D)'', ''L1C(P)'',
          ''L1C(D+P)'', ''L2 CM'', ''L2 CL'', ''L2 CM+CL'', ''L2 P'', ''L2 Z-tracking'',
          ''L5 I'', ''L5 Q'', ''L5 I+Q'', '''', ''''] sigmask
      else if satsys = ''R'' then
        list_get [''G1 C/A'', ''G1 P'', ''G2 C/A'', ''G2 P'', ''G1a(D)'', ''G1a(P)'',
          ''G1a(D+P)'', ''G2a(D)'', ''G2a(P)'', ''G2a(D+P)'', ''G3 I'', ''G3 Q'',
          ''G3 I+Q'', '''', '''', '''', ''''] sigmask
      else if satsys = ''E'' then
        list_get [''E1 B'', ''E1 C'', ''E1 B+C'', ''E5a I'', ''E5a Q'', ''E5a I+Q'',
          ''E5b I'', ''E5b Q'', ''E5b I+Q'', ''E5 I'', ''E5 Q'', ''E5 I+Q'',
          ''E6 B'', ''E6 C'', ''E6 B+C'', ''''] sigmask
      else if satsys = ''C'' then
        list_get [''B1 I'', ''B1 Q'', ''B1 I+Q'', ''B3 I'', ''B3 Q'', ''B3 I+Q'',
          ''B2 I'', ''B2 Q'', ''B2 I+Q'', '''', '''', '''', '''', '''', '''', '''', ''''] sigmask
      else if satsys = ''J'' then
        list_get [''L1 C/A'', ''L1 L1C(D)'', ''L1 L1C(P)'', ''L1 L1C(D+P)'',
          ''L2 L2C(M)'', ''L2 L2C(L)'', ''L2 L2C(M+L)'', ''L5 I'', ''L5 Q'',
          ''L5 I+Q'', '''', '''', '''', '''', '''', ''''] sigmask
      else if satsys = ''S'' then
        list_get [''L1 C/A'', ''L5 I'', ''L5 Q'', ''L5 I+Q'', '''', '''', '''', '''', '''', '''',
          '''', '''', '''', '''', '''', '''', ''''] sigmask
      else Raise (Exception ''unassigned signal name''))"

text \<open>The format \<^verbatim>\<open>f'{n:02d}'\<close>: decimal digits, padded with a zero to two places.\<close>

definition digit :: "nat \<Rightarrow> char" where
  "digit d = char_of (48 + d)"

fun dec :: "nat \<Rightarrow> string" where
  "dec n = (if n < 10 then [digit n] else dec (n div 10) @ [digit (n mod 10)])"

declare dec.simps [simp del]

definition fmt02d :: "nat \<Rightarrow> string" where
  "fmt02d n = (if n < 10 then CHR ''0'' # dec n else dec n)"

section \<open>The state of an Ssr object\<close>

text \<open>
  What the decoders hand to \<^verbatim>\<open>self.trace\<close> is kept as structured rows in place of the
  formatted text; whether a row reaches the display depends on the trace level, which
  is outside the model. Rows are kept for the header, the mask and the correction
  messages whose decoded values the development reasons about; for the CSSR subtypes 6
  to 12 the model keeps positions, errors and statistics only.
\<close>

datatype row =
    NullData nat                        \<comment> \<open>null data of so many bits\<close>
  | BadMsgnum nat nat bits              \<comment> \<open>message number, bit length, dump\<close>
  | MaskRow string string "string list" \<comment> \<open>prefix, satellite, its active signals\<close>
  | NmWarning
  | StatRow nat nat int int int int
  | Validity nat nat                    \<comment> \<open>HAS validity interval and its index\<close>
  | OrbitRow string nat rat rat rat     \<comment> \<open>satellite, IODE, radial, along, cross\<close>
  | ClockRow string rat                 \<comment> \<open>satellite, clock correction\<close>
  | CkfulRow string rat nat             \<comment> \<open>satellite, clock correction, multiplier\<close>
  | CodeBiasRow string string rat       \<comment> \<open>satellite, signal, code bias\<close>
  | PhaseBiasRow string string rat nat  \<comment> \<open>satellite, signal, phase bias, discontinuity\<close>
  | SsrOrbitRow string rat rat rat rat rat rat
  | SsrClockRow string rat rat rat        \<comment> \<open>satellite, c0, c1, c2\<close>
  | SsrCodeBiasRow string string rat      \<comment> \<open>satellite, signal, code bias\<close>
  | SsrUraRow string nat                  \<comment> \<open>satellite, user range accuracy\<close>
  | SsrHrClockRow string rat              \<comment> \<open>satellite, high rate clock\<close>
  | SsrSummary "string list" nat nat bool \<comment> \<open>satellites, nsat, iod, continued\<close>
  | CssrSummary nat nat nat               \<comment> \<open>subtype, epoch or hourly epoch, iod\<close>

record ssr =
  subtype    :: nat
  msgnum     :: nat
  ssr_nsat   :: nat
  ssr_mmi    :: bits
  ssr_iod    :: nat
  epoch      :: nat
  hepoch     :: nat
  interval   :: nat
  mmi        :: bits
  iod        :: nat
  satsys     :: "string list"
  nsatmask   :: "nat list"
  nsigmask   :: "nat list"
  cellmask   :: "bits list"
  gsys       :: "string \<rightharpoonup> string list"
  gsig       :: "string \<rightharpoonup> string list"
  stat       :: bool
  stat_nsat  :: nat
  stat_nsig  :: nat
  stat_bsat  :: int
  stat_bsig  :: int
  stat_both  :: int
  stat_bnull :: int

text \<open>
  The class-level defaults of \<^verbatim>\<open>Ssr\<close>. The flags \<^verbatim>\<open>ssr_mmi\<close> and \<^verbatim>\<open>mmi\<close> start as the
  integer 0 and later hold one-bit slices; both are false in a boolean context, as the
  empty bit list is. \<^verbatim>\<open>msgnum\<close> exists only once the header decode has assigned it.
\<close>

definition ssr_init :: ssr where
  "ssr_init = \<lparr> subtype = 0, msgnum = 0, ssr_nsat = 0, ssr_mmi = [], ssr_iod = 0,
     epoch = 0, hepoch = 0, interval = 0, mmi = [], iod = 0,
     satsys = [], nsatmask = [], nsigmask = [], cellmask = [],
     gsys = Map.empty, gsig = Map.empty, stat = False,
     stat_nsat = 0, stat_nsig = 0, stat_bsat = 0, stat_bsig = 0,
     stat_both = 0, stat_bnull = 0 \<rparr>"

text \<open>
  A decoder returns the updated object, the position it returns (0 for insufficient
  data or null data) and the rows it traced, or the exception it raised.
\<close>

type_synonym result = "error + (ssr \<times> nat \<times> row list)"

section \<open>The CSSR header\<close>

text \<open>
  The header decode assigns fields of the object before some of its early returns, so
  its parts return the object with the position. The three parts are the source's
  lines 297 to 302, 281 to 296 and 263 to 280.
\<close>

definition fin :: "ssr \<Rightarrow> (ssr \<times> nat) flow \<Rightarrow> result" where
  "fin s r = (case r of Raise e \<Rightarrow> Inl e | Return0 \<Rightarrow> Inr (s, 0, [])
              | Next (s', pos) \<Rightarrow> Inr (s', pos, []))"

definition head_tail :: "ssr \<Rightarrow> bits \<Rightarrow> nat \<Rightarrow> result" where
  "head_tail s payload pos =
     (if length payload < pos + 4 + 1 + 4 then Inr (s, 0, [])
      else fin s
        (bindF (get_uint payload 4 pos) (\<lambda>(iv, pos).
         bindF (get_bits payload 1 pos) (\<lambda>(mm, pos).
         bindF (get_uint payload 4 pos) (\<lambda>(io, pos).
         Next (s\<lparr>interval := iv, mmi := mm, iod := io\<rparr>, pos))))))"

definition head_subtype :: "ssr \<Rightarrow> bits \<Rightarrow> nat \<Rightarrow> result" where
  "head_subtype s payload pos =
     (if length payload < pos + 4 then Inr (s\<lparr>subtype := 0\<rparr>, 0, [])
      else case get_uint payload 4 pos of
          Raise e \<Rightarrow> Inl e
        | Return0 \<Rightarrow> Inr (s, 0, [])
        | Next (st, pos) \<Rightarrow>
            if st = 1 then
              if length payload < pos + 20 then Inr (s\<lparr>subtype := st\<rparr>, 0, [])
              else (case get_uint payload 20 pos of
                  Raise e \<Rightarrow> Inl e
                | Return0 \<Rightarrow> Inr (s, 0, [])
                | Next (e, pos) \<Rightarrow> head_tail (s\<lparr>subtype := st, epoch := e\<rparr>) payload pos)
            else if st = 10 then Inr (s\<lparr>subtype := st\<rparr>, pos, [])
            else
              if length payload < pos + 12 then Inr (s\<lparr>subtype := st\<rparr>, 0, [])
              else (case get_uint payload 12 pos of
                  Raise e \<Rightarrow> Inl e
                | Return0 \<Rightarrow> Inr (s, 0, [])
                | Next (h, pos) \<Rightarrow> head_tail (s\<lparr>subtype := st, hepoch := h\<rparr>) payload pos))"

definition decode_cssr_head :: "ssr \<Rightarrow> bits \<Rightarrow> result" where
  "decode_cssr_head s payload =
     (if \<not> truthy payload then
        Inr (s\<lparr>stat_bnull := stat_bnull s + int (length payload), subtype := 0\<rparr>, 0,
             [NullData (length payload)])
      else if length payload < 12 then Inr (s\<lparr>msgnum := 0, subtype := 0\<rparr>, 0, [])
      else case get_uint payload 12 0 of
          Raise e \<Rightarrow> Inl e
        | Return0 \<Rightarrow> Inr (s, 0, [])
        | Next (m, pos) \<Rightarrow>
            if m \<noteq> 4073 then
              Inr (s\<lparr>msgnum := m,
                     stat_bnull := stat_bnull s + int (length payload), subtype := 0\<rparr>, 0,
                   [BadMsgnum m (length payload) payload])
            else head_subtype (s\<lparr>msgnum := m\<rparr>) payload pos)"

section \<open>The mask message (CSSR subtype 1 and HAS mask)\<close>

datatype ssr_type = Cssr | Has

definition dict_get :: "('k \<rightharpoonup> 'v) \<Rightarrow> 'k \<Rightarrow> 'v flow" where
  "dict_get d k = (case d k of None \<Rightarrow> Raise KeyError | Some v \<Rightarrow> Next v)"

text \<open>The variables of the loop over the GNSS of a mask message.\<close>

record mask_vars =
  m_pos      :: nat
  m_satsys   :: "string list"
  m_nsatmask :: "nat list"
  m_nsigmask :: "nat list"
  m_cellmask :: "bits list"
  m_navmsg   :: "nat list"
  m_gsys     :: "string \<rightharpoonup> string list"
  m_gsig     :: "string \<rightharpoonup> string list"

text \<open>
  One turn of the loop \<^verbatim>\<open>for ignss in range(ngnss)\<close>. The source fills lists of
  \<^verbatim>\<open>ngnss\<close> placeholders by index; the lists grow by one entry a turn here, which is
  the same once the loop has run through, and the lists are used only then.
\<close>

definition mask_gnss :: "bits \<Rightarrow> ssr_type \<Rightarrow> mask_vars \<Rightarrow> mask_vars flow" where
  "mask_gnss payload ssr_type v =
     bindF (get_uint payload 4 (m_pos v)) (\<lambda>(ugnssid, pos).
     bindF (get_bits payload 40 pos) (\<lambda>(bsatmask, pos).
     bindF (get_bits payload 16 pos) (\<lambda>(bsigmask, pos).
     bindF (get_bits payload 1 pos) (\<lambda>(cmavail, pos).
     bindF (gnssid2satsys ugnssid) (\<lambda>t_satsys.
     let t_satmask = length (filter (\<lambda>val. val) bsatmask);
         t_gsys = [t_satsys @ fmt02d (i + 1). (i, val) \<leftarrow> enumerate 0 bsatmask, val];
         t_sigmask = length (filter (\<lambda>val. val) bsigmask)
     in
     bindF (forF (enumerate 0 bsigmask) []
              (\<lambda>(i, val) t_gsig.
                 if val then bindF (sigmask2signame t_satsys i) (\<lambda>name. Next (t_gsig @ [name]))
                 else Next t_gsig)) (\<lambda>t_gsig.
     let ncell = t_satmask * t_sigmask;
         bcellmask = (if truthy cmavail then bslice payload pos (pos + ncell)
                      else replicate ncell True);
         pos = (if truthy cmavail then pos + ncell else pos)
     in
     bindF (if ssr_type = Has then get_uint payload 3 pos else Next (0, pos)) (\<lambda>(nm, pos).
     Next \<lparr> m_pos = pos,
            m_satsys = m_satsys v @ [t_satsys],
            m_nsatmask = m_nsatmask v @ [t_satmask],
            m_nsigmask = m_nsigmask v @ [t_sigmask],
            m_cellmask = m_cellmask v @ [bcellmask],
            m_navmsg = m_navmsg v @ [nm],
            m_gsys = (m_gsys v)(t_satsys \<mapsto> t_gsys),
            m_gsig = (m_gsig v)(t_satsys \<mapsto> t_gsig) \<rparr>)))))))"

text \<open>
  The loop that builds the trace of the mask and counts satellites and active cells. It
  indexes the cell mask of a system once per pair of a satellite and a signal, the
  satellite in the outer loop and the signal in the inner one.
\<close>

definition mask_trace_sig ::
  "bits \<Rightarrow> string \<Rightarrow> nat \<times> nat \<times> string list \<Rightarrow> (nat \<times> nat \<times> string list) flow" where
  "mask_trace_sig cm = (\<lambda>gsig (pos_mask, nsig, names).
     bindF (bit_at cm pos_mask) (\<lambda>mask.
     if \<not> mask then Next (pos_mask + 1, nsig, names)
     else Next (pos_mask + 1, nsig + 1, names @ [gsig])))"

definition mask_trace_sat ::
  "ssr \<Rightarrow> ssr_type \<Rightarrow> nat \<Rightarrow> string \<Rightarrow> string \<Rightarrow> nat \<times> nat \<times> nat \<times> row list
     \<Rightarrow> (nat \<times> nat \<times> nat \<times> row list) flow" where
  "mask_trace_sat s ssr_type i = (\<lambda>satsys gsys (pos_mask, nsat, nsig, rows).
     bindF (dict_get (gsig s) satsys) (\<lambda>sigs.
     bindF (forF sigs (pos_mask, nsig, [])
              (\<lambda>gsig acc. bindF (list_get (cellmask s) i) (\<lambda>cm. mask_trace_sig cm gsig acc)))
       (\<lambda>(pos_mask, nsig, names).
     Next (pos_mask, nsat + 1, nsig,
           rows @ [MaskRow (if ssr_type = Cssr then ''ST1'' else ''MASK'') gsys names]))))"

definition mask_trace_sys ::
  "ssr \<Rightarrow> ssr_type \<Rightarrow> nat list \<Rightarrow> nat \<times> string \<Rightarrow> nat \<times> nat \<times> row list
     \<Rightarrow> (nat \<times> nat \<times> row list) flow" where
  "mask_trace_sys s ssr_type navmsg = (\<lambda>(i, satsys) (nsat, nsig, rows).
     bindF (dict_get (gsys s) satsys) (\<lambda>sats.
     bindF (forF sats (0, nsat, nsig, rows) (mask_trace_sat s ssr_type i satsys))
       (\<lambda>(pos_mask, nsat, nsig, rows).
     if ssr_type = Has then
       bindF (list_get navmsg i) (\<lambda>nm.
       Next (nsat, nsig, if nm \<noteq> 0 then rows @ [NmWarning] else rows))
     else Next (nsat, nsig, rows))))"

definition show_cssr_stat :: "ssr \<Rightarrow> row list" where
  "show_cssr_stat s =
     [StatRow (stat_nsat s) (stat_nsig s) (stat_bsat s) (stat_bsig s) (stat_both s)
        (stat_bnull s)]"

definition run :: "ssr \<Rightarrow> (ssr \<times> nat \<times> row list) flow \<Rightarrow> result" where
  "run s r = (case r of Raise e \<Rightarrow> Inl e | Return0 \<Rightarrow> Inr (s, 0, []) | Next x \<Rightarrow> Inr x)"

definition decode_mask :: "ssr \<Rightarrow> bits \<Rightarrow> nat \<Rightarrow> ssr_type \<Rightarrow> result" where
  "decode_mask s payload pos ssr_type = run s
     (if length payload < pos + 4 then Return0 else
      bindF (get_uint payload 4 pos) (\<lambda>(ngnss, pos).
      if length payload < 49 + 61 * ngnss then Return0 else
      bindF (forF [0..<ngnss]
               \<lparr> m_pos = pos, m_satsys = [], m_nsatmask = [], m_nsigmask = [],
                 m_cellmask = [], m_navmsg = [], m_gsys = Map.empty, m_gsig = Map.empty \<rparr>
               (\<lambda>ignss. mask_gnss payload ssr_type)) (\<lambda>v.
      let pos = (if ssr_type = Has then m_pos v + 6 else m_pos v);
          s = s\<lparr> satsys := m_satsys v, nsatmask := m_nsatmask v, nsigmask := m_nsigmask v,
                 cellmask := m_cellmask v, gsys := m_gsys v, gsig := m_gsig v \<rparr>
      in
      bindF (forF (enumerate 0 (satsys s)) (0, 0, [])
               (mask_trace_sys s ssr_type (m_navmsg v))) (\<lambda>(nsat, nsig, rows).
      let s = s\<lparr> stat_nsat := nsat, stat_nsig := nsig \<rparr>;
          rows = (if stat s then rows @ show_cssr_stat s else rows)
      in
      Next (s\<lparr> stat_bsat := 0, stat_bsig := 0, stat_both := int pos, stat_bnull := 0 \<rparr>,
            pos, rows)))))"

definition decode_cssr_st1 :: "ssr \<Rightarrow> bits \<Rightarrow> nat \<Rightarrow> result" where
  "decode_cssr_st1 s payload pos = decode_mask s payload pos Cssr"

definition decode_has_mask :: "ssr \<Rightarrow> bits \<Rightarrow> nat \<Rightarrow> result" where
  "decode_has_mask s has_msg pos = decode_mask s has_msg pos Has"

section \<open>Orbit and clock corrections\<close>

text \<open>
  The scaled fields of the correction messages, each under the name of the source's
  variable: the raw value times the resolution, or \<^const>\<open>INVALID\<close> when the raw value
  is the one the source compares it with.
\<close>

definition st2_d_radial :: "int \<Rightarrow> rat" where
  "st2_d_radial i_radial = (if i_radial \<noteq> -16384 then of_int i_radial * 0.0016 else INVALID)"

definition st2_d_along :: "int \<Rightarrow> rat" where
  "st2_d_along i_along = (if i_along \<noteq> -16384 then of_int i_along * 0.0064 else INVALID)"

definition st2_d_cross :: "int \<Rightarrow> rat" where
  "st2_d_cross i_cross = (if i_cross \<noteq> -16384 then of_int i_cross * 0.0064 else INVALID)"

definition st2_sat :: "bits \<Rightarrow> nat \<Rightarrow> string \<Rightarrow> nat \<times> row list \<Rightarrow> (nat \<times> row list) flow" where
  "st2_sat payload bw = (\<lambda>gsys (pos, rows).
     if length payload < pos + bw + 15 + 13 + 13 then Return0 else
     bindF (get_uint payload bw pos) (\<lambda>(iode, pos).
     bindF (get_int payload 15 pos) (\<lambda>(i_radial, pos).
     bindF (get_int payload 13 pos) (\<lambda>(i_along, pos).
     bindF (get_int payload 13 pos) (\<lambda>(i_cross, pos).
     Next (pos, rows @ [OrbitRow gsys iode (st2_d_radial i_radial) (st2_d_along i_along)
                          (st2_d_cross i_cross)]))))))"

definition st2_sys :: "ssr \<Rightarrow> bits \<Rightarrow> string \<Rightarrow> nat \<times> row list \<Rightarrow> (nat \<times> row list) flow" where
  "st2_sys s payload = (\<lambda>satsys acc.
     let bw = (if satsys = ''E'' then 10 else 8) in
     bindF (dict_get (gsys s) satsys) (\<lambda>sats. forF sats acc (st2_sat payload bw)))"

definition decode_cssr_st2 :: "ssr \<Rightarrow> bits \<Rightarrow> nat \<Rightarrow> result" where
  "decode_cssr_st2 s payload pos = run s
     (let stat_pos = pos in
      bindF (forF (satsys s) (pos, []) (st2_sys s payload)) (\<lambda>(pos, rows).
      Next (s\<lparr> stat_both := stat_both s + int stat_pos,
                stat_bsat := stat_bsat s + (int pos - int stat_pos) \<rparr>, pos, rows)))"

text \<open>The property \<^verbatim>\<open>.bin\<close> of a slice: its bits as a string of the digits 0 and 1.\<close>

definition bin :: "bits \<Rightarrow> string" where
  "bin bs = map (\<lambda>b. if b then CHR ''1'' else CHR ''0'') bs"

definition has_d_radial :: "bits \<Rightarrow> rat flow" where
  "has_d_radial i_radial =
     (if bin i_radial \<noteq> ''1000000000000''
      then bindF (int_of i_radial) (\<lambda>v. Next (of_int v * 0.0025)) else Next INVALID)"

definition has_d_along :: "bits \<Rightarrow> rat flow" where
  "has_d_along i_along =
     (if bin i_along \<noteq> ''100000000000''
      then bindF (int_of i_along) (\<lambda>v. Next (of_int v * 0.0080)) else Next INVALID)"

definition has_d_cross :: "bits \<Rightarrow> rat flow" where
  "has_d_cross i_cross =
     (if bin i_cross \<noteq> ''100000000000''
      then bindF (int_of i_cross) (\<lambda>v. Next (of_int v * 0.0080)) else Next INVALID)"

definition has_orbit_sat ::
  "bits \<Rightarrow> nat \<Rightarrow> string \<Rightarrow> nat \<times> row list \<Rightarrow> (nat \<times> row list) flow" where
  "has_orbit_sat payload bw = (\<lambda>gsys (pos, rows).
     if length payload < pos + bw + 13 + 12 + 12 then Return0 else
     bindF (get_uint payload bw pos) (\<lambda>(iode, pos).
     bindF (get_bits payload 13 pos) (\<lambda>(i_radial, pos).
     bindF (get_bits payload 12 pos) (\<lambda>(i_along, pos).
     bindF (get_bits payload 12 pos) (\<lambda>(i_cross, pos).
     bindF (has_d_radial i_radial) (\<lambda>d_radial.
     bindF (has_d_along i_along) (\<lambda>d_along.
     bindF (has_d_cross i_cross) (\<lambda>d_cross.
     Next (pos, rows @ [OrbitRow gsys iode d_radial d_along d_cross])))))))))"

definition has_orbit_sys ::
  "ssr \<Rightarrow> bits \<Rightarrow> string \<Rightarrow> nat \<times> row list \<Rightarrow> (nat \<times> row list) flow" where
  "has_orbit_sys s payload = (\<lambda>satsys acc.
     let bw = (if satsys = ''E'' then 10 else 8) in
     bindF (dict_get (gsys s) satsys) (\<lambda>sats. forF sats acc (has_orbit_sat payload bw)))"

definition decode_has_orbit :: "ssr \<Rightarrow> bits \<Rightarrow> nat \<Rightarrow> result" where
  "decode_has_orbit s payload pos = run s
     (let stat_pos = pos in
      if length payload < pos + 4 then Return0 else
      bindF (get_uint payload 4 pos) (\<lambda>(vi, pos).
      bindF (list_get HAS_VI vi) (\<lambda>seconds.
      bindF (forF (satsys s) (pos, [Validity seconds vi]) (has_orbit_sys s payload))
        (\<lambda>(pos, rows).
      Next (s\<lparr> stat_both := stat_both s + int stat_pos,
                stat_bsat := stat_bsat s + (int pos - int stat_pos) \<rparr>, pos, rows)))))"

definition st3_c0 :: "int \<Rightarrow> rat" where
  "st3_c0 ic0 = (if ic0 \<noteq> -16384 then of_int ic0 * 0.0016 else INVALID)"

definition st3_sat :: "bits \<Rightarrow> string \<Rightarrow> nat \<times> row list \<Rightarrow> (nat \<times> row list) flow" where
  "st3_sat payload = (\<lambda>gsys (pos, rows).
     if length payload < pos + 15 then Return0 else
     bindF (get_int payload 15 pos) (\<lambda>(ic0, pos).
     Next (pos, rows @ [ClockRow gsys (st3_c0 ic0)])))"

definition st3_sys :: "ssr \<Rightarrow> bits \<Rightarrow> string \<Rightarrow> nat \<times> row list \<Rightarrow> (nat \<times> row list) flow" where
  "st3_sys s payload = (\<lambda>satsys acc.
     bindF (dict_get (gsys s) satsys) (\<lambda>sats. forF sats acc (st3_sat payload)))"

definition decode_cssr_st3 :: "ssr \<Rightarrow> bits \<Rightarrow> nat \<Rightarrow> result" where
  "decode_cssr_st3 s payload pos = run s
     (let stat_pos = pos in
      bindF (forF (satsys s) (pos, []) (st3_sys s payload)) (\<lambda>(pos, rows).
      Next (s\<lparr> stat_both := stat_both s + int stat_pos,
                stat_bsat := stat_bsat s + (int pos - int stat_pos) \<rparr>, pos, rows)))"

definition ckful_c0 :: "bits \<Rightarrow> nat \<Rightarrow> rat flow" where
  "ckful_c0 ic0 multiplier =
     (if bin ic0 = ''1000000000000'' then Next INVALID
      else if bin ic0 = ''0111111111111'' then Next INVALID
      else bindF (int_of ic0) (\<lambda>v. Next (of_int v * 0.0025 * of_nat multiplier)))"

definition ckful_sat ::
  "bits \<Rightarrow> nat \<Rightarrow> string \<Rightarrow> nat \<times> row list \<Rightarrow> (nat \<times> row list) flow" where
  "ckful_sat payload multiplier = (\<lambda>gsys (pos, rows).
     if length payload < pos + 13 then Return0 else
     bindF (get_bits payload 13 pos) (\<lambda>(ic0, pos).
     bindF (ckful_c0 ic0 multiplier) (\<lambda>c0.
     Next (pos, rows @ [CkfulRow gsys c0 multiplier]))))"

definition ckful_sys ::
  "ssr \<Rightarrow> bits \<Rightarrow> nat list \<Rightarrow> nat \<times> string \<Rightarrow> nat \<times> row list \<Rightarrow> (nat \<times> row list) flow" where
  "ckful_sys s payload multiplier = (\<lambda>(i, satsys) acc.
     bindF (dict_get (gsys s) satsys) (\<lambda>sats.
     forF sats acc (\<lambda>gsys acc.
       bindF (list_get multiplier i) (\<lambda>m. ckful_sat payload m gsys acc))))"

definition decode_has_ckful :: "ssr \<Rightarrow> bits \<Rightarrow> nat \<Rightarrow> result" where
  "decode_has_ckful s payload pos = run s
     (let stat_pos = pos in
      if length payload < pos + 4 then Return0 else
      bindF (get_uint payload 4 pos) (\<lambda>(vi, pos).
      bindF (list_get HAS_VI vi) (\<lambda>seconds.
      if length payload < pos + 2 * length (satsys s) then Return0 else
      bindF (forF (satsys s) (pos, [])
               (\<lambda>satsys (pos, multiplier).
                  bindF (get_uint payload 2 pos) (\<lambda>(m, pos). Next (pos, multiplier @ [m + 1]))))
        (\<lambda>(pos, multiplier).
      bindF (forF (enumerate 0 (satsys s)) (pos, [Validity seconds vi])
               (ckful_sys s payload multiplier)) (\<lambda>(pos, rows).
      Next (s\<lparr> stat_both := stat_both s + int stat_pos,
                stat_bsat := stat_bsat s + (int pos - int stat_pos) \<rparr>, pos, rows))))))"

text \<open>
  In \<^verbatim>\<open>decode_has_cksub\<close> the names \<^verbatim>\<open>multiplier\<close> and \<^verbatim>\<open>gsys\<close> are bound neither in
  the function nor in the module. The assignment \<^verbatim>\<open>multiplier[i] = ...\<close> evaluates its
  right side first and then looks the name up, which raises \<^verbatim>\<open>NameError\<close>; the rest of
  the loop body is never reached.
\<close>

definition cksub_turn :: "bits \<Rightarrow> nat \<Rightarrow> nat \<times> row list \<Rightarrow> (nat \<times> row list) flow" where
  "cksub_turn payload i = (\<lambda>(pos, rows).
     bindF (get_uint payload 4 pos) (\<lambda>(satsys, pos).
     bindF (get_uint payload 2 pos) (\<lambda>(m, pos).
     Raise NameError)))"

definition decode_has_cksub :: "ssr \<Rightarrow> bits \<Rightarrow> nat \<Rightarrow> result" where
  "decode_has_cksub s payload pos = run s
     (let stat_pos = pos in
      if length payload < pos + 4 + 2 then Return0 else
      bindF (get_uint payload 4 pos) (\<lambda>(vi, pos).
      bindF (get_uint payload 2 pos) (\<lambda>(n, pos).
      let ns = n + 1 in
      bindF (list_get HAS_VI vi) (\<lambda>seconds.
      bindF (forF [0..<ns] (pos, [Validity seconds vi]) (cksub_turn payload)) (\<lambda>(pos, rows).
      Next (s\<lparr> stat_both := stat_both s + int stat_pos,
                stat_bsat := stat_bsat s + (int pos - int stat_pos) \<rparr>, pos, rows))))))"

section \<open>Code and phase biases: the loops over the cells\<close>

definition cb_code_bias :: "int \<Rightarrow> rat" where
  "cb_code_bias icb = (if icb \<noteq> -1024 then of_int icb * 0.02 else INVALID)"

text \<open>The first loop of \<^verbatim>\<open>_decode_code_bias\<close> counts the active cells.\<close>

definition cb_count_sys :: "ssr \<Rightarrow> nat \<times> string \<Rightarrow> nat \<Rightarrow> nat flow" where
  "cb_count_sys s = (\<lambda>(i, satsys) nsigsat.
     bindF (dict_get (gsys s) satsys) (\<lambda>sats.
     bindF (forF sats (0, nsigsat) (\<lambda>gsys acc.
              bindF (dict_get (gsig s) satsys) (\<lambda>sigs.
              forF sigs acc (\<lambda>gsig (pos_mask, nsigsat).
                bindF (list_get (cellmask s) i) (\<lambda>cm.
                bindF (bit_at cm pos_mask) (\<lambda>mask.
                if \<not> mask then Next (pos_mask + 1, nsigsat)
                else Next (pos_mask + 1, nsigsat + 1)))))))
       (\<lambda>(pos_mask, nsigsat). Next nsigsat)))"

definition cb_cell ::
  "ssr \<Rightarrow> bits \<Rightarrow> nat \<Rightarrow> string \<Rightarrow> string \<Rightarrow> nat \<times> nat \<times> row list
     \<Rightarrow> (nat \<times> nat \<times> row list) flow" where
  "cb_cell s payload i = (\<lambda>gsys gsig (pos_mask, pos, rows).
     bindF (list_get (cellmask s) i) (\<lambda>cm.
     bindF (bit_at cm pos_mask) (\<lambda>mask.
     if \<not> mask then Next (pos_mask + 1, pos, rows) else
     bindF (get_int payload 11 pos) (\<lambda>(icb, pos).
     Next (pos_mask + 1, pos, rows @ [CodeBiasRow gsys gsig (cb_code_bias icb)])))))"

definition cb_sys ::
  "ssr \<Rightarrow> bits \<Rightarrow> nat \<times> string \<Rightarrow> nat \<times> row list \<Rightarrow> (nat \<times> row list) flow" where
  "cb_sys s payload = (\<lambda>(i, satsys) (pos, rows).
     bindF (dict_get (gsys s) satsys) (\<lambda>sats.
     bindF (forF sats (0, pos, rows) (\<lambda>gsys acc.
              bindF (dict_get (gsig s) satsys) (\<lambda>sigs.
              forF sigs acc (cb_cell s payload i gsys))))
       (\<lambda>(pos_mask, pos, rows). Next (pos, rows))))"

definition decode_code_bias :: "ssr \<Rightarrow> bits \<Rightarrow> nat \<Rightarrow> ssr_type \<Rightarrow> result" where
  "decode_code_bias s payload pos ssr_type = run s
     (bindF (forF (enumerate 0 (satsys s)) 0 (cb_count_sys s)) (\<lambda>nsigsat.
      bindF (if ssr_type = Has then
               if length payload < pos + 4 then Return0 else
               bindF (get_uint payload 4 pos) (\<lambda>(vi, pos).
               bindF (list_get HAS_VI vi) (\<lambda>seconds. Next (pos, [Validity seconds vi])))
             else Next (pos, [])) (\<lambda>(pos, rows).
      if length payload < pos + 11 * nsigsat then Return0 else
      let stat_pos = pos in
      bindF (forF (enumerate 0 (satsys s)) (pos, rows) (cb_sys s payload)) (\<lambda>(pos, rows).
      Next (s\<lparr> stat_both := stat_both s + int stat_pos,
                stat_bsig := stat_bsig s + (int pos - int stat_pos) \<rparr>, pos, rows)))))"

definition decode_cssr_st4 :: "ssr \<Rightarrow> bits \<Rightarrow> nat \<Rightarrow> result" where
  "decode_cssr_st4 s payload pos = decode_code_bias s payload pos Cssr"

definition decode_has_cbias :: "ssr \<Rightarrow> bits \<Rightarrow> nat \<Rightarrow> result" where
  "decode_has_cbias s payload pos = decode_code_bias s payload pos Has"

definition st5_pb :: "int \<Rightarrow> rat" where
  "st5_pb ipb = (if ipb \<noteq> -16384 then of_int ipb * 0.001 else INVALID)"

definition st5_cell ::
  "ssr \<Rightarrow> bits \<Rightarrow> nat \<Rightarrow> string \<Rightarrow> string \<Rightarrow> nat \<times> nat \<times> row list
     \<Rightarrow> (nat \<times> nat \<times> row list) flow" where
  "st5_cell s payload i = (\<lambda>gsys gsig (pos_mask, pos, rows).
     bindF (list_get (cellmask s) i) (\<lambda>cm.
     bindF (bit_at cm pos_mask) (\<lambda>mask.
     if \<not> mask then Next (pos_mask + 1, pos, rows) else
     if length payload < pos + 15 + 2 then Return0 else
     bindF (get_int payload 15 pos) (\<lambda>(ipb, pos).
     bindF (get_uint payload 2 pos) (\<lambda>(di, pos).
     Next (pos_mask + 1, pos, rows @ [PhaseBiasRow gsys gsig (st5_pb ipb) di]))))))"

definition st5_sys ::
  "ssr \<Rightarrow> bits \<Rightarrow> nat \<times> string \<Rightarrow> nat \<times> row list \<Rightarrow> (nat \<times> row list) flow" where
  "st5_sys s payload = (\<lambda>(i, satsys) (pos, rows).
     bindF (dict_get (gsys s) satsys) (\<lambda>sats.
     bindF (forF sats (0, pos, rows) (\<lambda>gsys acc.
              bindF (dict_get (gsig s) satsys) (\<lambda>sigs.
              forF sigs acc (st5_cell s payload i gsys))))
       (\<lambda>(pos_mask, pos, rows). Next (pos, rows))))"

definition decode_cssr_st5 :: "ssr \<Rightarrow> bits \<Rightarrow> nat \<Rightarrow> result" where
  "decode_cssr_st5 s payload pos = run s
     (let stat_pos = pos in
      bindF (forF (enumerate 0 (satsys s)) (pos, []) (st5_sys s payload)) (\<lambda>(pos, rows).
      Next (s\<lparr> stat_both := stat_both s + int stat_pos,
                stat_bsig := stat_bsig s + (int pos - int stat_pos) \<rparr>, pos, rows)))"

definition has_pb :: "int \<Rightarrow> rat" where
  "has_pb ipb = (if ipb \<noteq> -1024 then of_int ipb * 0.01 else INVALID)"

definition pbias_cell ::
  "ssr \<Rightarrow> bits \<Rightarrow> nat \<Rightarrow> string \<Rightarrow> string \<Rightarrow> nat \<times> nat \<times> row list
     \<Rightarrow> (nat \<times> nat \<times> row list) flow" where
  "pbias_cell s payload i = (\<lambda>gsys gsig (pos_mask, pos, rows).
     bindF (list_get (cellmask s) i) (\<lambda>cm.
     bindF (bit_at cm pos_mask) (\<lambda>mask.
     if \<not> mask then Next (pos_mask + 1, pos, rows) else
     if length payload < pos + 11 + 2 then Return0 else
     bindF (get_int payload 11 pos) (\<lambda>(ipb, pos).
     bindF (get_uint payload 2 pos) (\<lambda>(di, pos).
     Next (pos_mask + 1, pos, rows @ [PhaseBiasRow gsys gsig (has_pb ipb) di]))))))"

definition pbias_sys ::
  "ssr \<Rightarrow> bits \<Rightarrow> nat \<times> string \<Rightarrow> nat \<times> row list \<Rightarrow> (nat \<times> row list) flow" where
  "pbias_sys s payload = (\<lambda>(i, satsys) (pos, rows).
     bindF (dict_get (gsys s) satsys) (\<lambda>sats.
     bindF (forF sats (0, pos, rows) (\<lambda>gsys acc.
              bindF (dict_get (gsig s) satsys) (\<lambda>sigs.
              forF sigs acc (pbias_cell s payload i gsys))))
       (\<lambda>(pos_mask, pos, rows). Next (pos, rows))))"

definition decode_has_pbias :: "ssr \<Rightarrow> bits \<Rightarrow> nat \<Rightarrow> result" where
  "decode_has_pbias s payload pos = run s
     (if length payload < pos + 4 then Return0 else
      bindF (get_uint payload 4 pos) (\<lambda>(vi, pos).
      bindF (list_get HAS_VI vi) (\<lambda>seconds.
      let stat_pos = pos in
      bindF (forF (enumerate 0 (satsys s)) (pos, [Validity seconds vi]) (pbias_sys s payload))
        (\<lambda>(pos, rows).
      Next (s\<lparr> stat_both := stat_both s + int stat_pos,
                stat_bsig := stat_bsig s + (int pos - int stat_pos) \<rparr>, pos, rows)))))"

section \<open>The RTCM SSR messages\<close>

text \<open>
  The SSR decoders read their fields with no check of the length of the payload. Those
  after the header return the position and a summary string, kept as the last row. The
  resolutions are those of the code, also where the comment beside a line names another
  one.
\<close>

definition ssr_decode_head :: "ssr \<Rightarrow> bits \<Rightarrow> nat \<Rightarrow> string \<Rightarrow> string \<Rightarrow> result" where
  "ssr_decode_head s payload pos = (\<lambda>satsys mtype. run s
     (let bw = (if satsys \<noteq> ''R'' then 20 else 17) in
      bindF (get_uint payload bw pos) (\<lambda>(ssr_epoch, pos).
      bindF (get_uint payload 4 pos) (\<lambda>(ssr_interval, pos).
      bindF (get_bits payload 1 pos) (\<lambda>(mm, pos).
      bindF (if mtype = ''SSR orbit'' \<or> mtype = ''SSR obt/clk''
             then get_uint payload 1 pos else Next (0, pos)) (\<lambda>(ssr_sdat, pos).
      bindF (get_uint payload 4 pos) (\<lambda>(io, pos).
      bindF (get_uint payload 16 pos) (\<lambda>(ssr_pid, pos).
      bindF (get_uint payload 4 pos) (\<lambda>(ssr_sid, pos).
      let bw = (if satsys \<noteq> ''J'' then 6 else 4) in
      bindF (get_uint payload bw pos) (\<lambda>(nsat, pos).
      Next (s\<lparr> ssr_mmi := mm, ssr_iod := io, ssr_nsat := nsat \<rparr>, pos, [])))))))))))"

definition ssr_orbit_sat ::
  "bits \<Rightarrow> string \<Rightarrow> nat \<Rightarrow> nat \<Rightarrow> nat \<times> string list \<times> row list
     \<Rightarrow> (nat \<times> string list \<times> row list) flow" where
  "ssr_orbit_sat payload = (\<lambda>satsys bw i (pos, strsat, rows).
     bindF (get_uint payload bw pos) (\<lambda>(satid, pos).
     bindF (get_uint payload 8 pos) (\<lambda>(iode, pos).
     bindF (get_int payload 22 pos) (\<lambda>(idrad, pos).
     bindF (get_int payload 20 pos) (\<lambda>(idaln, pos).
     bindF (get_int payload 20 pos) (\<lambda>(idcrs, pos).
     bindF (get_int payload 21 pos) (\<lambda>(iddrad, pos).
     bindF (get_int payload 19 pos) (\<lambda>(iddaln, pos).
     bindF (get_int payload 19 pos) (\<lambda>(iddcrs, pos).
     let name = satsys @ fmt02d satid in
     Next (pos, strsat @ [name],
           rows @ [SsrOrbitRow name (of_int idrad * (1 / 10 ^ 4)) (of_int idaln * (4 / 10 ^ 4))
                     (of_int idcrs * (4 / 10 ^ 5)) (of_int iddrad * (1 / 10 ^ 6))
                     (of_int iddaln * (4 / 10 ^ 6)) (of_int iddcrs * (4 / 10 ^ 6))]))))))))))"

definition ssr_decode_orbit :: "ssr \<Rightarrow> bits \<Rightarrow> nat \<Rightarrow> string \<Rightarrow> result" where
  "ssr_decode_orbit s payload pos = (\<lambda>satsys. run s
     (let bw = (if satsys = ''J'' then 4 else if satsys = ''R'' then 5 else 6) in
      bindF (forF [0..<ssr_nsat s] (pos, [], []) (ssr_orbit_sat payload satsys bw))
        (\<lambda>(pos, strsat, rows).
      Next (s, pos, rows @ [SsrSummary strsat (ssr_nsat s) (ssr_iod s) (truthy (ssr_mmi s))]))))"

definition ssr_clock_sat ::
  "bits \<Rightarrow> string \<Rightarrow> nat \<Rightarrow> nat \<Rightarrow> nat \<times> string list \<times> row list
     \<Rightarrow> (nat \<times> string list \<times> row list) flow" where
  "ssr_clock_sat payload = (\<lambda>satsys bw i (pos, strsat, rows).
     bindF (get_uint payload bw pos) (\<lambda>(satid, pos).
     bindF (get_int payload 22 pos) (\<lambda>(ic0, pos).
     bindF (get_int payload 21 pos) (\<lambda>(ic1, pos).
     bindF (get_int payload 27 pos) (\<lambda>(ic2, pos).
     let name = satsys @ fmt02d satid in
     Next (pos, strsat @ [name],
           rows @ [SsrClockRow name (of_int ic0 * (1 / 10 ^ 4)) (of_int ic1 * (1 / 10 ^ 6))
                     (of_int ic2 * (2 / 10 ^ 9))]))))))"

definition ssr_decode_clock :: "ssr \<Rightarrow> bits \<Rightarrow> nat \<Rightarrow> string \<Rightarrow> result" where
  "ssr_decode_clock s payload pos = (\<lambda>satsys. run s
     (let bw = (if satsys = ''J'' then 4 else if satsys = ''R'' then 5 else 6) in
      bindF (forF [0..<ssr_nsat s] (pos, [], []) (ssr_clock_sat payload satsys bw))
        (\<lambda>(pos, strsat, rows).
      Next (s, pos, rows @ [SsrSummary strsat (ssr_nsat s) (ssr_iod s) (truthy (ssr_mmi s))]))))"

definition ssr_code_bias_sig ::
  "bits \<Rightarrow> string \<Rightarrow> string \<Rightarrow> nat \<Rightarrow> nat \<times> row list \<Rightarrow> (nat \<times> row list) flow" where
  "ssr_code_bias_sig payload = (\<lambda>satsys name j (pos, rows).
     bindF (get_uint payload 5 pos) (\<lambda>(ustmi, pos).
     bindF (get_int payload 14 pos) (\<lambda>(icb, pos).
     bindF (sigmask2signame satsys ustmi) (\<lambda>stmi.
     Next (pos, rows @ [SsrCodeBiasRow name stmi (of_int icb * (1 / 10 ^ 2))])))))"

definition ssr_code_bias_sat ::
  "bits \<Rightarrow> string \<Rightarrow> nat \<Rightarrow> nat \<Rightarrow> nat \<times> string list \<times> row list
     \<Rightarrow> (nat \<times> string list \<times> row list) flow" where
  "ssr_code_bias_sat payload = (\<lambda>satsys bw i (pos, strsat, rows).
     bindF (get_uint payload bw pos) (\<lambda>(satid, pos).
     bindF (get_uint payload 5 pos) (\<lambda>(ncb, pos).
     let name = satsys @ fmt02d satid in
     bindF (forF [0..<ncb] (pos, rows) (ssr_code_bias_sig payload satsys name))
       (\<lambda>(pos, rows).
     Next (pos, strsat @ [name], rows)))))"

definition ssr_decode_code_bias :: "ssr \<Rightarrow> bits \<Rightarrow> nat \<Rightarrow> string \<Rightarrow> result" where
  "ssr_decode_code_bias s payload pos = (\<lambda>satsys. run s
     (let bw = (if satsys = ''J'' then 4 else if satsys = ''R'' then 5 else 6) in
      bindF (forF [0..<ssr_nsat s] (pos, [], []) (ssr_code_bias_sat payload satsys bw))
        (\<lambda>(pos, strsat, rows).
      Next (s, pos, rows @ [SsrSummary strsat (ssr_nsat s) (ssr_iod s) (truthy (ssr_mmi s))]))))"

definition ssr_ura_sat ::
  "bits \<Rightarrow> string \<Rightarrow> nat \<Rightarrow> nat \<Rightarrow> nat \<times> string list \<times> row list
     \<Rightarrow> (nat \<times> string list \<times> row list) flow" where
  "ssr_ura_sat payload = (\<lambda>satsys bw i (pos, strsat, rows).
     bindF (get_uint payload bw pos) (\<lambda>(satid, pos).
     bindF (get_uint payload 6 pos) (\<lambda>(ura, pos).
     let name = satsys @ fmt02d satid in
     Next (pos, strsat @ [name], rows @ [SsrUraRow name ura]))))"

definition ssr_decode_ura :: "ssr \<Rightarrow> bits \<Rightarrow> nat \<Rightarrow> string \<Rightarrow> result" where
  "ssr_decode_ura s payload pos = (\<lambda>satsys. run s
     (let bw = (if satsys = ''J'' then 4 else if satsys = ''R'' then 5 else 6) in
      bindF (forF [0..<ssr_nsat s] (pos, [], []) (ssr_ura_sat payload satsys bw))
        (\<lambda>(pos, strsat, rows).
      Next (s, pos, rows @ [SsrSummary strsat (ssr_nsat s) (ssr_iod s) (truthy (ssr_mmi s))]))))"

definition ssr_hr_clock_sat ::
  "bits \<Rightarrow> string \<Rightarrow> nat \<Rightarrow> nat \<Rightarrow> nat \<times> string list \<times> row list
     \<Rightarrow> (nat \<times> string list \<times> row list) flow" where
  "ssr_hr_clock_sat payload = (\<lambda>satsys bw i (pos, strsat, rows).
     bindF (get_uint payload bw pos) (\<lambda>(satid, pos).
     bindF (get_int payload 22 pos) (\<lambda>(ihrc, pos).
     let name = satsys @ fmt02d satid in
     Next (pos, strsat @ [name], rows @ [SsrHrClockRow name (of_int ihrc * (1 / 10 ^ 4))]))))"

definition ssr_decode_hr_clock :: "ssr \<Rightarrow> bits \<Rightarrow> nat \<Rightarrow> string \<Rightarrow> result" where
  "ssr_decode_hr_clock s payload pos = (\<lambda>satsys. run s
     (let bw = (if satsys = ''J'' then 4 else if satsys = ''R'' then 5 else 6) in
      bindF (forF [0..<ssr_nsat s] (pos, [], []) (ssr_hr_clock_sat payload satsys bw))
        (\<lambda>(pos, strsat, rows).
      Next (s, pos, rows @ [SsrSummary strsat (ssr_nsat s) (ssr_iod s) (truthy (ssr_mmi s))]))))"

section \<open>CSSR subtypes 6 to 12\<close>

text \<open>
  Several subtypes read a satellite mask per system into a local dictionary
  \<^verbatim>\<open>svmask\<close>, with the same four lines of code.
\<close>

definition read_svmask ::
  "ssr \<Rightarrow> bits \<Rightarrow> string \<Rightarrow> nat \<times> (string \<rightharpoonup> bits) \<Rightarrow> (nat \<times> (string \<rightharpoonup> bits)) flow" where
  "read_svmask s payload = (\<lambda>satsys (pos, svmask).
     bindF (dict_get (gsys s) satsys) (\<lambda>sats.
     let ngsys = length sats in
     if length payload < pos + ngsys then Return0 else
     Next (pos + ngsys, svmask(satsys \<mapsto> bslice payload pos (pos + ngsys)))))"

definition st6_cell ::
  "ssr \<Rightarrow> bits \<Rightarrow> bits \<Rightarrow> bits \<Rightarrow> (string \<rightharpoonup> bits) \<Rightarrow> nat \<Rightarrow> string \<Rightarrow> nat \<Rightarrow> string
     \<Rightarrow> nat \<times> nat \<Rightarrow> (nat \<times> nat) flow" where
  "st6_cell s payload f_cb f_pb svmask i = (\<lambda>satsys j gsig (pos_mask, pos).
     bindF (list_get (cellmask s) i) (\<lambda>cm.
     bindF (bit_at cm pos_mask) (\<lambda>mask.
     bindF (dict_get svmask satsys) (\<lambda>sv.
     bindF (bit_at sv j) (\<lambda>svbit.
     if \<not> svbit \<or> \<not> mask then Next (pos_mask + 1, pos) else
     bindF (if truthy f_cb then
              if length payload < pos + 11 then Return0 else
              bindF (get_int payload 11 pos) (\<lambda>(icb, pos). Next pos)
            else Next pos) (\<lambda>pos.
     bindF (if truthy f_pb then
              if length payload < pos + 15 + 2 then Return0 else
              bindF (get_int payload 15 pos) (\<lambda>(ipb, pos).
              bindF (get_uint payload 2 pos) (\<lambda>(di, pos). Next pos))
            else Next pos) (\<lambda>pos.
     Next (pos_mask + 1, pos))))))))"

definition st6_sys ::
  "ssr \<Rightarrow> bits \<Rightarrow> bits \<Rightarrow> bits \<Rightarrow> (string \<rightharpoonup> bits) \<Rightarrow> nat \<times> string \<Rightarrow> nat \<Rightarrow> nat flow" where
  "st6_sys s payload f_cb f_pb svmask = (\<lambda>(i, satsys) pos.
     bindF (dict_get (gsys s) satsys) (\<lambda>sats.
     bindF (forF (enumerate 0 sats) (0, pos) (\<lambda>(j, gsys) acc.
              bindF (dict_get (gsig s) satsys) (\<lambda>sigs.
              forF sigs acc (st6_cell s payload f_cb f_pb svmask i satsys j))))
       (\<lambda>(pos_mask, pos). Next pos)))"

definition decode_cssr_st6 :: "ssr \<Rightarrow> bits \<Rightarrow> nat \<Rightarrow> result" where
  "decode_cssr_st6 s payload pos = run s
     (if length payload < 45 then Return0 else
      let stat_pos = pos in
      bindF (get_bits payload 1 pos) (\<lambda>(f_cb, pos).
      bindF (get_bits payload 1 pos) (\<lambda>(f_pb, pos).
      bindF (get_bits payload 1 pos) (\<lambda>(f_nb, pos).
      bindF (forF (satsys s) ()
               (\<lambda>satsys u. bindF (dict_get (gsys s) satsys) (\<lambda>sats. Next ()))) (\<lambda>u.
      bindF (if truthy f_nb then
               bindF (get_uint payload 5 pos) (\<lambda>(cnid, pos).
               forF (satsys s) (pos, Map.empty) (read_svmask s payload))
             else Next (pos, Map.empty)) (\<lambda>(pos, svmask).
      bindF (forF (enumerate 0 (satsys s)) pos (st6_sys s payload f_cb f_pb svmask)) (\<lambda>pos.
      Next (s\<lparr> stat_both := stat_both s + (int stat_pos + 3),
                stat_bsig := stat_bsig s + (int pos - int stat_pos - 3) \<rparr>, pos, []))))))))"

definition st7_sys :: "ssr \<Rightarrow> bits \<Rightarrow> string \<Rightarrow> nat \<Rightarrow> nat flow" where
  "st7_sys s payload = (\<lambda>satsys pos.
     bindF (dict_get (gsys s) satsys) (\<lambda>sats.
     forF sats pos (\<lambda>gsys pos.
       if length payload < pos + 6 then Return0 else
       bindF (get_uint payload 6 pos) (\<lambda>(ura, pos). Next pos))))"

definition decode_cssr_st7 :: "ssr \<Rightarrow> bits \<Rightarrow> nat \<Rightarrow> result" where
  "decode_cssr_st7 s payload pos = run s
     (if length payload < 37 then Return0 else
      let stat_pos = pos in
      bindF (forF (satsys s) pos (st7_sys s payload)) (\<lambda>pos.
      Next (s\<lparr> stat_both := stat_both s + int stat_pos,
                stat_bsat := stat_bsat s + (int pos - int stat_pos) \<rparr>, pos, [])))"

text \<open>
  The STEC polynomial of subtypes 8 and 12: the terms after \<^verbatim>\<open>c00\<close> are read when the
  correction type says so, each after its own check of the length.
\<close>

definition stec_terms :: "bits \<Rightarrow> nat \<Rightarrow> nat \<Rightarrow> nat flow" where
  "stec_terms payload stec_type pos =
     bindF (if 1 \<le> stec_type then
              if length payload < pos + 12 + 12 then Return0 else
              bindF (get_int payload 12 pos) (\<lambda>(ic01, pos).
              bindF (get_int payload 12 pos) (\<lambda>(ic10, pos). Next pos))
            else Next pos) (\<lambda>pos.
     bindF (if 2 \<le> stec_type then
              if length payload < pos + 10 then Return0 else
              bindF (get_int payload 10 pos) (\<lambda>(ic11, pos). Next pos)
            else Next pos) (\<lambda>pos.
     if 3 \<le> stec_type then
       if length payload < pos + 8 + 8 then Return0 else
       bindF (get_int payload 8 pos) (\<lambda>(ic02, pos).
       bindF (get_int payload 8 pos) (\<lambda>(ic20, pos). Next pos))
     else Next pos))"

definition st8_sys ::
  "ssr \<Rightarrow> bits \<Rightarrow> nat \<Rightarrow> (string \<rightharpoonup> bits) \<Rightarrow> string \<Rightarrow> nat \<Rightarrow> nat flow" where
  "st8_sys s payload stec_type svmask = (\<lambda>satsys pos.
     bindF (dict_get (gsys s) satsys) (\<lambda>sats.
     forF (enumerate 0 sats) pos (\<lambda>(i, gsys) pos.
       bindF (dict_get svmask satsys) (\<lambda>sv.
       bindF (bit_at sv i) (\<lambda>svbit.
       if \<not> svbit then Next pos else
       if length payload < pos + 6 + 14 then Return0 else
       bindF (get_uint payload 6 pos) (\<lambda>(qi, pos).
       bindF (get_int payload 14 pos) (\<lambda>(ic00, pos).
       stec_terms payload stec_type pos)))))))"

definition decode_cssr_st8 :: "ssr \<Rightarrow> bits \<Rightarrow> nat \<Rightarrow> result" where
  "decode_cssr_st8 s payload pos = run s
     (if length payload < 44 then Return0 else
      let stat_pos = pos in
      bindF (get_uint payload 2 pos) (\<lambda>(stec_type, pos).
      bindF (get_uint payload 5 pos) (\<lambda>(cnid, pos).
      bindF (forF (satsys s) (pos, Map.empty) (read_svmask s payload)) (\<lambda>(pos, svmask).
      bindF (forF (satsys s) pos (st8_sys s payload stec_type svmask)) (\<lambda>pos.
      Next (s\<lparr> stat_both := stat_both s + (int stat_pos + 7),
                stat_bsat := stat_bsat s + (int pos - int stat_pos - 7) \<rparr>, pos, []))))))"

definition st9_sys ::
  "ssr \<Rightarrow> bits \<Rightarrow> nat \<Rightarrow> (string \<rightharpoonup> bits) \<Rightarrow> string \<Rightarrow> nat \<Rightarrow> nat flow" where
  "st9_sys s payload bw svmask = (\<lambda>satsys pos.
     bindF (dict_get (gsys s) satsys) (\<lambda>sats.
     forF (enumerate 0 sats) pos (\<lambda>(j, gsys) pos.
       bindF (dict_get svmask satsys) (\<lambda>sv.
       bindF (bit_at sv j) (\<lambda>svbit.
       if \<not> svbit then Next pos else
       if length payload < pos + bw then Return0 else
       bindF (get_int payload bw pos) (\<lambda>(res, pos). Next pos))))))"

definition st9_grid ::
  "ssr \<Rightarrow> bits \<Rightarrow> nat \<Rightarrow> (string \<rightharpoonup> bits) \<Rightarrow> nat \<Rightarrow> nat \<Rightarrow> nat flow" where
  "st9_grid s payload bw svmask i pos =
     (if length payload < pos + 9 + 8 then Return0 else
      bindF (get_int payload 9 pos) (\<lambda>(ivd_h, pos).
      bindF (get_int payload 8 pos) (\<lambda>(ivd_w, pos).
      forF (satsys s) pos (st9_sys s payload bw svmask))))"

definition decode_cssr_st9 :: "ssr \<Rightarrow> bits \<Rightarrow> nat \<Rightarrow> result" where
  "decode_cssr_st9 s payload pos = run s
     (if length payload < 45 then Return0 else
      bindF (get_uint payload 2 pos) (\<lambda>(tctype, pos).
      bindF (get_bits payload 1 pos) (\<lambda>(crange, pos).
      let bw = (if truthy crange then 16 else 7) in
      bindF (get_uint payload 5 pos) (\<lambda>(cnid, pos).
      bindF (forF (satsys s) (pos, Map.empty) (read_svmask s payload)) (\<lambda>(pos, svmask).
      if length payload < pos + 6 + 6 then Return0 else
      bindF (get_uint payload 6 pos) (\<lambda>(tqi, pos).
      bindF (get_uint payload 6 pos) (\<lambda>(ngrid, pos).
      bindF (forF [0..<ngrid] pos (st9_grid s payload bw svmask)) (\<lambda>pos.
      Next (s\<lparr> stat_both := stat_both s + int pos \<rparr>, pos, [])))))))))"

definition decode_cssr_st10 :: "ssr \<Rightarrow> bits \<Rightarrow> nat \<Rightarrow> result" where
  "decode_cssr_st10 s payload pos = run s
     (if length payload < 5 then Return0 else
      bindF (get_uint payload 3 pos) (\<lambda>(counter, pos).
      bindF (get_uint payload 2 pos) (\<lambda>(idsize, pos).
      let dsize = (idsize + 1) * 40 in
      if length payload < pos + dsize then Return0 else
      bindF (get_bits payload dsize pos) (\<lambda>(aux_frame_data, pos).
      Next (s\<lparr> stat_both := stat_both s + int pos \<rparr>, pos, [])))))"

definition st11_sys ::
  "ssr \<Rightarrow> bits \<Rightarrow> bits \<Rightarrow> bits \<Rightarrow> (string \<rightharpoonup> bits) \<Rightarrow> string \<Rightarrow> nat \<Rightarrow> nat flow" where
  "st11_sys s payload f_o f_c svmask = (\<lambda>satsys pos.
     bindF (dict_get (gsys s) satsys) (\<lambda>sats.
     forF (enumerate 0 sats) pos (\<lambda>(i, gsys) pos.
       bindF (dict_get svmask satsys) (\<lambda>sv.
       bindF (bit_at sv i) (\<lambda>svbit.
       if \<not> svbit then Next pos else
       bindF (if truthy f_o then
                let bw = (if satsys = ''E'' then 10 else 8) in
                if length payload < pos + bw + 15 + 13 + 13 then Return0 else
                bindF (get_uint payload bw pos) (\<lambda>(iode, pos).
                bindF (get_int payload 15 pos) (\<lambda>(id_radial, pos).
                bindF (get_int payload 13 pos) (\<lambda>(id_along, pos).
                bindF (get_int payload 13 pos) (\<lambda>(id_cross, pos). Next pos))))
              else Next pos) (\<lambda>pos.
       if truthy f_c then
         if length payload < pos + 15 then Return0 else
         bindF (get_int payload 15 pos) (\<lambda>(ic0, pos). Next pos)
       else Next pos))))))"

definition decode_cssr_st11 :: "ssr \<Rightarrow> bits \<Rightarrow> nat \<Rightarrow> result" where
  "decode_cssr_st11 s payload pos = run s
     (if length payload < 40 then Return0 else
      let stat_pos = pos in
      bindF (get_bits payload 1 pos) (\<lambda>(f_o, pos).
      bindF (get_bits payload 1 pos) (\<lambda>(f_c, pos).
      bindF (get_bits payload 1 pos) (\<lambda>(f_n, pos).
      bindF (if truthy f_n then
               if length payload < pos + 5 then Return0 else
               bindF (get_uint payload 5 pos) (\<lambda>(cnid, pos).
               bindF (forF (satsys s) (pos, Map.empty) (read_svmask s payload))
                 (\<lambda>(pos, svmask).
               forF (satsys s) pos (st11_sys s payload f_o f_c svmask)))
             else Next pos) (\<lambda>pos.
      let s = s\<lparr> stat_both := stat_both s + (int stat_pos + 3),
                  stat_bsat := stat_bsat s + (int pos - int stat_pos - 3) \<rparr>;
          s = (if truthy f_n
               then s\<lparr> stat_both := stat_both s + 5, stat_bsat := stat_bsat s - 5 \<rparr>
               else s)
      in Next (s, pos, []))))))"

definition st12_tropo_poly :: "bits \<Rightarrow> nat \<Rightarrow> nat flow" where
  "st12_tropo_poly payload pos =
     (if length payload < pos + 6 + 2 + 9 then Return0 else
      bindF (get_uint payload 6 pos) (\<lambda>(tqi, pos).
      bindF (get_uint payload 2 pos) (\<lambda>(ttype, pos).
      bindF (get_int payload 9 pos) (\<lambda>(it00, pos).
      bindF (if 1 \<le> ttype then
               if length payload < pos + 7 + 7 then Return0 else
               bindF (get_int payload 7 pos) (\<lambda>(it01, pos).
               bindF (get_int payload 7 pos) (\<lambda>(it10, pos). Next pos))
             else Next pos) (\<lambda>pos.
      if 2 \<le> ttype then
        if length payload < pos + 7 then Return0 else
        bindF (get_int payload 7 pos) (\<lambda>(it11, pos). Next pos)
      else Next pos)))))"

definition st12_tropo_grid :: "bits \<Rightarrow> nat \<Rightarrow> nat \<Rightarrow> nat flow" where
  "st12_tropo_grid payload ngrid pos =
     (if length payload < pos + 1 + 4 then Return0 else
      bindF (get_bits payload 1 pos) (\<lambda>(trs, pos).
      bindF (get_uint payload 4 pos) (\<lambda>(itro, pos).
      let bw = (if truthy trs then 8 else 6) in
      if length payload < pos + bw * ngrid then Return0 else
      forF [0..<ngrid] pos (\<lambda>i pos.
        bindF (get_int payload bw pos) (\<lambda>(itr, pos). Next pos)))))"

definition st12_sys ::
  "ssr \<Rightarrow> bits \<Rightarrow> nat \<Rightarrow> (string \<rightharpoonup> bits) \<Rightarrow> string \<Rightarrow> nat \<Rightarrow> nat flow" where
  "st12_sys s payload ngrid svmask = (\<lambda>satsys pos.
     bindF (dict_get (gsys s) satsys) (\<lambda>sats.
     forF (enumerate 0 sats) pos (\<lambda>(i, gsys) pos.
       bindF (dict_get svmask satsys) (\<lambda>sv.
       bindF (bit_at sv i) (\<lambda>svbit.
       if \<not> svbit then Next pos else
       if length payload < pos + 6 + 2 + 14 then Return0 else
       bindF (get_uint payload 6 pos) (\<lambda>(sqi, pos).
       bindF (get_uint payload 2 pos) (\<lambda>(sct, pos).
       bindF (get_int payload 14 pos) (\<lambda>(ic00, pos).
       bindF (stec_terms payload sct pos) (\<lambda>pos.
       if length payload < pos + 2 then Return0 else
       bindF (get_uint payload 2 pos) (\<lambda>(srs, pos).
       bindF (list_get [4, 4, 5, 7] srs) (\<lambda>bw.
       forF [0..<ngrid] pos (\<lambda>i pos.
         if length payload < pos + bw then Return0 else
         bindF (get_int payload bw pos) (\<lambda>(isr, pos). Next pos)))))))))))))"

definition decode_cssr_st12 :: "ssr \<Rightarrow> bits \<Rightarrow> nat \<Rightarrow> result" where
  "decode_cssr_st12 s payload pos = run s
     (if length payload < 52 then Return0 else
      bindF (get_bits payload 2 pos) (\<lambda>(tropo, pos).
      bindF (get_bits payload 2 pos) (\<lambda>(stec, pos).
      bindF (get_uint payload 5 pos) (\<lambda>(cnid, pos).
      bindF (get_uint payload 6 pos) (\<lambda>(ngrid, pos).
      bindF (bit_at tropo 0) (\<lambda>tropo0.
      bindF (if tropo0 then st12_tropo_poly payload pos else Next pos) (\<lambda>pos.
      bindF (bit_at tropo 1) (\<lambda>tropo1.
      bindF (if tropo1 then st12_tropo_grid payload ngrid pos else Next pos) (\<lambda>pos.
      let stat_pos = pos in
      bindF (bit_at stec 0) (\<lambda>stec0.
      bindF (if stec0 then
               bindF (forF (satsys s) (pos, Map.empty) (read_svmask s payload))
                 (\<lambda>(pos, svmask).
               forF (satsys s) pos (st12_sys s payload ngrid svmask))
             else Next pos) (\<lambda>pos.
      Next (s\<lparr> stat_both := stat_both s + int stat_pos,
                stat_bsat := stat_bsat s + (int pos - int stat_pos) \<rparr>, pos, []))))))))))))"

section \<open>The dispatch on the subtype\<close>

text \<open>
  \<^verbatim>\<open>decode_cssr\<close> returns the position and a summary string; the summary is the last
  row here, and there is none when the header decode returned 0.
\<close>

definition decode_cssr :: "ssr \<Rightarrow> bits \<Rightarrow> result" where
  "decode_cssr s payload =
     (case decode_cssr_head s payload of
        Inl e \<Rightarrow> Inl e
      | Inr (s, pos, hrows) \<Rightarrow>
          if pos = 0 then Inr (s, 0, hrows)
          else
           (case (if subtype s = 1 then decode_cssr_st1 s payload pos
                  else if subtype s = 2 then decode_cssr_st2 s payload pos
                  else if subtype s = 3 then decode_cssr_st3 s payload pos
                  else if subtype s = 4 then decode_cssr_st4 s payload pos
                  else if subtype s = 5 then decode_cssr_st5 s payload pos
                  else if subtype s = 6 then decode_cssr_st6 s payload pos
                  else if subtype s = 7 then decode_cssr_st7 s payload pos
                  else if subtype s = 8 then decode_cssr_st8 s payload pos
                  else if subtype s = 9 then decode_cssr_st9 s payload pos
                  else if subtype s = 10 then decode_cssr_st10 s payload pos
                  else if subtype s = 11 then decode_cssr_st11 s payload pos
                  else if subtype s = 12 then decode_cssr_st12 s payload pos
                  else Inl (Exception ''unknown CSSR subtype'')) of
              Inl e \<Rightarrow> Inl e
            | Inr (s, pos, rows) \<Rightarrow>
                Inr (s, pos, hrows @ rows @
                  [CssrSummary (subtype s) (if subtype s = 1 then epoch s else hepoch s)
                     (iod s)])))"

section \<open>Ephemeris data (libeph.py)\<close>

text \<open>
  \<^verbatim>\<open>EphData.__init__\<close> scales the raw fields of an \<^verbatim>\<open>EphRaw\<close> object, which it reads
  through the properties \<^verbatim>\<open>.u\<close> (unsigned) and \<^verbatim>\<open>.i\<close> (two's complement) of bit
  strings. The fields carry the prefix \<open>raw_\<close> and those of the result the prefix
  \<open>eph_\<close>. The attribute \<^verbatim>\<open>dn\<close> is assigned twice and keeps the second value. Floats
  are exact rationals, so the rounding of the products with \<^verbatim>\<open>PI\<close> is not modelled.
\<close>

definition PI :: rat where
  "PI = 3.1415926535898"

record eph_raw =
  raw_svid :: bits  raw_m0 :: bits  raw_e :: bits  raw_a12 :: bits  raw_t0e :: bits
  raw_omg0 :: bits  raw_i0 :: bits  raw_omg :: bits  raw_idot :: bits  raw_dn :: bits
  raw_omgd :: bits  raw_cuc :: bits  raw_cus :: bits  raw_crc :: bits  raw_crs :: bits
  raw_cic :: bits  raw_cis :: bits  raw_t0c :: bits  raw_af0 :: bits  raw_af1 :: bits
  raw_af2 :: bits  raw_be5a :: bits  raw_be5b :: bits  raw_ai0 :: bits  raw_ai1 :: bits
  raw_a0 :: bits  raw_a1 :: bits  raw_dtls :: bits  raw_t0t :: bits  raw_wn0t :: bits
  raw_wnlsf :: bits  raw_dtlsf :: bits  raw_a0g :: bits  raw_a1g :: bits  raw_t0g :: bits
  raw_wn0g :: bits

record eph_data =
  eph_svid :: nat  eph_m0 :: rat  eph_e :: rat  eph_a12 :: rat  eph_t0e :: nat
  eph_omg0 :: rat  eph_i0 :: rat  eph_omg :: rat  eph_idot :: rat  eph_dn :: nat
  eph_omgd :: rat  eph_cuc :: rat  eph_cus :: rat  eph_crc :: rat  eph_crs :: rat
  eph_cic :: rat  eph_cis :: rat  eph_t0c :: nat  eph_af0 :: rat  eph_af1 :: rat
  eph_af2 :: rat  eph_be5a :: rat  eph_be5b :: rat  eph_ai0 :: rat  eph_ai1 :: rat
  eph_a0 :: rat  eph_a1 :: rat  eph_dtls :: int  eph_t0t :: nat  eph_wn0t :: nat
  eph_wnlsf :: nat  eph_dtlsf :: int  eph_a0g :: rat  eph_a1g :: rat  eph_t0g :: nat
  eph_wn0g :: nat

definition EphData :: "eph_raw \<Rightarrow> eph_data flow" where
  "EphData r =
     bindF (uint_of (raw_svid r)) (\<lambda>svid.
     bindF (int_of (raw_m0 r)) (\<lambda>m0.
     bindF (uint_of (raw_e r)) (\<lambda>e.
     bindF (uint_of (raw_a12 r)) (\<lambda>a12.
     bindF (uint_of (raw_t0e r)) (\<lambda>t0e.
     bindF (int_of (raw_omg0 r)) (\<lambda>omg0.
     bindF (int_of (raw_i0 r)) (\<lambda>i0.
     bindF (int_of (raw_omg r)) (\<lambda>omg.
     bindF (int_of (raw_idot r)) (\<lambda>idot.
     bindF (int_of (raw_dn r)) (\<lambda>dn_i.
     bindF (int_of (raw_omgd r)) (\<lambda>omgd.
     bindF (int_of (raw_cuc r)) (\<lambda>cuc.
     bindF (int_of (raw_cus r)) (\<lambda>cus.
     bindF (int_of (raw_crc r)) (\<lambda>crc.
     bindF (int_of (raw_crs r)) (\<lambda>crs.
     bindF (int_of (raw_cic r)) (\<lambda>cic.
     bindF (int_of (raw_cis r)) (\<lambda>cis.
     bindF (uint_of (raw_t0c r)) (\<lambda>t0c.
     bindF (int_of (raw_af0 r)) (\<lambda>af0.
     bindF (int_of (raw_af1 r)) (\<lambda>af1.
     bindF (int_of (raw_af2 r)) (\<lambda>af2.
     bindF (int_of (raw_be5a r)) (\<lambda>be5a.
     bindF (int_of (raw_be5b r)) (\<lambda>be5b.
     bindF (uint_of (raw_ai0 r)) (\<lambda>ai0.
     bindF (int_of (raw_ai1 r)) (\<lambda>ai1.
     bindF (int_of (raw_a0 r)) (\<lambda>a0.
     bindF (int_of (raw_a1 r)) (\<lambda>a1.
     bindF (int_of (raw_dtls r)) (\<lambda>dtls.
     bindF (uint_of (raw_t0t r)) (\<lambda>t0t.
     bindF (uint_of (raw_wn0t r)) (\<lambda>wn0t.
     bindF (uint_of (raw_wnlsf r)) (\<lambda>wnlsf.
     bindF (uint_of (raw_dn r)) (\<lambda>dn_u.
     bindF (int_of (raw_dtlsf r)) (\<lambda>dtlsf.
     bindF (int_of (raw_a0g r)) (\<lambda>a0g.
     bindF (int_of (raw_a1g r)) (\<lambda>a1g.
     bindF (uint_of (raw_t0g r)) (\<lambda>t0g.
     bindF (uint_of (raw_wn0g r)) (\<lambda>wn0g.
     Next \<lparr> eph_svid = svid,
            eph_m0 = of_int m0 * (1 / 2 ^ 31) * PI,
            eph_e = of_nat e * (1 / 2 ^ 33),
            eph_a12 = of_nat a12 * (1 / 2 ^ 19),
            eph_t0e = t0e * 60,
            eph_omg0 = of_int omg0 * (1 / 2 ^ 31) * PI,
            eph_i0 = of_int i0 * (1 / 2 ^ 31) * PI,
            eph_omg = of_int omg * (1 / 2 ^ 31) * PI,
            eph_idot = of_int idot * (1 / 2 ^ 43) * PI,
            eph_dn = dn_u,
            eph_omgd = of_int omgd * (1 / 2 ^ 43) * PI,
            eph_cuc = of_int cuc * (1 / 2 ^ 29),
            eph_cus = of_int cus * (1 / 2 ^ 29),
            eph_crc = of_int crc * (1 / 2 ^ 5),
            eph_crs = of_int crs * (1 / 2 ^ 5),
            eph_cic = of_int cic * (1 / 2 ^ 29),
            eph_cis = of_int cis * (1 / 2 ^ 29),
            eph_t0c = t0c * 60,
            eph_af0 = of_int af0 * (1 / 2 ^ 34),
            eph_af1 = of_int af1 * (1 / 2 ^ 46),
            eph_af2 = of_int af2 * (1 / 2 ^ 59),
            eph_be5a = of_int be5a * (1 / 2 ^ 32),
            eph_be5b = of_int be5b * (1 / 2 ^ 32),
            eph_ai0 = of_nat ai0 * (1 / 2 ^ 2),
            eph_ai1 = of_int ai1 * (1 / 2 ^ 8),
            eph_a0 = of_int a0 * (1 / 2 ^ 30),
            eph_a1 = of_int a1 * (1 / 2 ^ 50),
            eph_dtls = dtls,
            eph_t0t = t0t,
            eph_wn0t = wn0t,
            eph_wnlsf = wnlsf,
            eph_dtlsf = dtlsf,
            eph_a0g = of_int a0g * (1 / 2 ^ 35),
            eph_a1g = of_int a1g * (1 / 2 ^ 51),
            eph_t0g = t0g * 3600,
            eph_wn0g = wn0g \<rparr>)))))))))))))))))))))))))))))))))))))"

text \<open>
  The GPS branch of \<^verbatim>\<open>Eph.decode_ephemerides\<close> (the source's lines 137 to 174). The
  payload is a bit stream with a read position; \<^verbatim>\<open>payload.read(n)\<close> raises
  \<^verbatim>\<open>ReadError\<close> when fewer than \<^verbatim>\<open>n\<close> bits are left. The branch fills the fields of a
  local \<^verbatim>\<open>EphRaw\<close> with integers and returns a message built from some of them; the
  model returns the fields and the position.
\<close>

definition read_bits :: "bits \<Rightarrow> nat \<Rightarrow> nat \<Rightarrow> (bits \<times> nat) flow" where
  "read_bits payload n pos =
     (if length payload < pos + n then Raise ReadError
      else Next (bslice payload pos (pos + n), pos + n))"

definition read_u :: "bits \<Rightarrow> nat \<Rightarrow> nat \<Rightarrow> (nat \<times> nat) flow" where
  "read_u payload n pos =
     bindF (read_bits payload n pos) (\<lambda>(bs, pos). bindF (uint_of bs) (\<lambda>v. Next (v, pos)))"

definition read_i :: "bits \<Rightarrow> nat \<Rightarrow> nat \<Rightarrow> (int \<times> nat) flow" where
  "read_i payload n pos =
     bindF (read_bits payload n pos) (\<lambda>(bs, pos). bindF (int_of bs) (\<lambda>v. Next (v, pos)))"

record gps_eph =
  g_svid :: nat  g_wn :: nat  g_sva :: nat  g_gpsc :: bits  g_idot :: int  g_iode :: nat
  g_toc :: nat  g_af2 :: int  g_af1 :: int  g_af0 :: int  g_iodc :: nat  g_crs :: int
  g_dn :: int  g_m0 :: int  g_cuc :: int  g_e :: nat  g_cus :: int  g_a12 :: nat
  g_toe :: nat  g_cic :: int  g_omg0 :: int  g_cis :: int  g_i0 :: int  g_crc :: int
  g_omg :: int  g_omgd :: int  g_tgd :: int  g_svh :: nat  g_l2p :: nat  g_fi :: nat

definition decode_ephemerides_G :: "bits \<Rightarrow> nat \<Rightarrow> (gps_eph \<times> nat) flow" where
  "decode_ephemerides_G payload pos =
     bindF (read_u payload 6 pos) (\<lambda>(svid, pos).
     bindF (read_u payload 10 pos) (\<lambda>(wn, pos).
     bindF (read_u payload 4 pos) (\<lambda>(sva, pos).
     bindF (read_bits payload 2 pos) (\<lambda>(gpsc, pos).
     bindF (read_i payload 14 pos) (\<lambda>(idot, pos).
     bindF (read_u payload 8 pos) (\<lambda>(iode, pos).
     bindF (read_u payload 16 pos) (\<lambda>(toc, pos).
     bindF (read_i payload 8 pos) (\<lambda>(af2, pos).
     bindF (read_i payload 16 pos) (\<lambda>(af1, pos).
     bindF (read_i payload 22 pos) (\<lambda>(af0, pos).
     bindF (read_u payload 10 pos) (\<lambda>(iodc, pos).
     bindF (read_i payload 16 pos) (\<lambda>(crs, pos).
     bindF (read_i payload 16 pos) (\<lambda>(dn, pos).
     bindF (read_i payload 32 pos) (\<lambda>(m0, pos).
     bindF (read_i payload 16 pos) (\<lambda>(cuc, pos).
     bindF (read_u payload 32 pos) (\<lambda>(e, pos).
     bindF (read_i payload 16 pos) (\<lambda>(cus, pos).
     bindF (read_u payload 32 pos) (\<lambda>(a12, pos).
     bindF (read_u payload 16 pos) (\<lambda>(toe, pos).
     bindF (read_i payload 16 pos) (\<lambda>(cic, pos).
     bindF (read_i payload 32 pos) (\<lambda>(omg0, pos).
     bindF (read_i payload 16 pos) (\<lambda>(cis, pos).
     bindF (read_i payload 32 pos) (\<lambda>(i0, pos).
     bindF (read_i payload 16 pos) (\<lambda>(crc, pos).
     bindF (read_i payload 32 pos) (\<lambda>(omg, pos).
     bindF (read_i payload 24 pos) (\<lambda>(omgd, pos).
     bindF (read_i payload 8 pos) (\<lambda>(tgd, pos).
     bindF (read_u payload 6 pos) (\<lambda>(svh, pos).
     bindF (read_u payload 1 pos) (\<lambda>(l2p, pos).
     bindF (read_u payload 1 pos) (\<lambda>(fi, pos).
     Next (\<lparr> g_svid = svid, g_wn = wn, g_sva = sva, g_gpsc = gpsc, g_idot = idot,
              g_iode = iode, g_toc = toc, g_af2 = af2, g_af1 = af1, g_af0 = af0,
              g_iodc = iodc, g_crs = crs, g_dn = dn, g_m0 = m0, g_cuc = cuc, g_e = e,
              g_cus = cus, g_a12 = a12, g_toe = toe, g_cic = cic, g_omg0 = omg0,
              g_cis = cis, g_i0 = i0, g_crc = crc, g_omg = omg, g_omgd = omgd,
              g_tgd = tgd, g_svh = svh, g_l2p = l2p, g_fi = fi \<rparr>, pos)
     ))))))))))))))))))))))))))))))"

section \<open>Definitions used in the statements\<close>

text \<open>The rows a result carries; none when the decoder raised.\<close>

definition rows_of :: "result \<Rightarrow> row list" where
  "rows_of r = (case r of Inl e \<Rightarrow> [] | Inr (s, pos, rows) \<Rightarrow> rows)"

text \<open>
  The satellites of a system in the mask context, the width of the IODE field, and what
  the orbit and clock decoders of subtypes 2 and 3 have to produce: the bits they need
  and the rows of the satellites, system after system, each cell read at the position
  where the previous one ended.
\<close>

definition sats_of :: "ssr \<Rightarrow> string \<Rightarrow> string list" where
  "sats_of s sys = (case gsys s sys of None \<Rightarrow> [] | Some sats \<Rightarrow> sats)"

definition iode_width :: "string \<Rightarrow> nat" where
  "iode_width sys = (if sys = ''E'' then 10 else 8)"

fun st3_rows :: "bits \<Rightarrow> string list \<Rightarrow> nat \<Rightarrow> row list" where
  "st3_rows payload [] pos = []"
| "st3_rows payload (g # gs) pos =
     ClockRow g (st3_c0 (bits_int (bslice payload pos (pos + 15))))
       # st3_rows payload gs (pos + 15)"

fun st2_rows :: "bits \<Rightarrow> nat \<Rightarrow> string list \<Rightarrow> nat \<Rightarrow> row list" where
  "st2_rows payload bw [] pos = []"
| "st2_rows payload bw (g # gs) pos =
     OrbitRow g (bits_nat (bslice payload pos (pos + bw)))
       (st2_d_radial (bits_int (bslice payload (pos + bw) (pos + bw + 15))))
       (st2_d_along (bits_int (bslice payload (pos + bw + 15) (pos + bw + 15 + 13))))
       (st2_d_cross (bits_int (bslice payload (pos + bw + 15 + 13) (pos + bw + 15 + 13 + 13))))
       # st2_rows payload bw gs (pos + bw + 15 + 13 + 13)"

fun st3_need :: "ssr \<Rightarrow> string list \<Rightarrow> nat" where
  "st3_need s [] = 0"
| "st3_need s (sys # syss) = 15 * length (sats_of s sys) + st3_need s syss"

fun st3_all_rows :: "ssr \<Rightarrow> bits \<Rightarrow> string list \<Rightarrow> nat \<Rightarrow> row list" where
  "st3_all_rows s payload [] pos = []"
| "st3_all_rows s payload (sys # syss) pos =
     st3_rows payload (sats_of s sys) pos
       @ st3_all_rows s payload syss (pos + 15 * length (sats_of s sys))"

fun st2_need :: "ssr \<Rightarrow> string list \<Rightarrow> nat" where
  "st2_need s [] = 0"
| "st2_need s (sys # syss) =
     (iode_width sys + 15 + 13 + 13) * length (sats_of s sys) + st2_need s syss"

fun st2_all_rows :: "ssr \<Rightarrow> bits \<Rightarrow> string list \<Rightarrow> nat \<Rightarrow> row list" where
  "st2_all_rows s payload [] pos = []"
| "st2_all_rows s payload (sys # syss) pos =
     st2_rows payload (iode_width sys) (sats_of s sys) pos
       @ st2_all_rows s payload syss
           (pos + (iode_width sys + 15 + 13 + 13) * length (sats_of s sys))"

text \<open>
  Every satellite system of the object has an entry in the satellite dictionary: the
  condition under which the loops over the satellites raise no \<^verbatim>\<open>KeyError\<close>.
\<close>

definition mask_keys_ok :: "ssr \<Rightarrow> bool" where
  "mask_keys_ok s = list_all (\<lambda>sys. gsys s sys \<noteq> None) (satsys s)"

text \<open>
  The number of satellites of the mask context, the signals of a system, the part of the
  cell mask of a system that the loops over the cells read (one cell for each pair of a
  satellite and a signal), and the number of active cells.
\<close>

definition n_sats :: "ssr \<Rightarrow> nat" where
  "n_sats s = sum_list (map (\<lambda>sys. length (sats_of s sys)) (satsys s))"

definition n_true :: "bits \<Rightarrow> nat" where
  "n_true bs = length (filter (\<lambda>b. b) bs)"

definition sigs_of :: "ssr \<Rightarrow> string \<Rightarrow> string list" where
  "sigs_of s sys = (case gsig s sys of None \<Rightarrow> [] | Some sigs \<Rightarrow> sigs)"

definition sys_mask :: "ssr \<Rightarrow> nat \<times> string \<Rightarrow> bits" where
  "sys_mask s = (\<lambda>(i, sys).
     take (length (sats_of s sys) * length (sigs_of s sys))
       (if i < length (cellmask s) then cellmask s ! i else []))"

definition n_active :: "ssr \<Rightarrow> nat" where
  "n_active s = sum_list (map (\<lambda>x. n_true (sys_mask s x)) (enumerate 0 (satsys s)))"

text \<open>
  A complete mask context: every satellite system has an entry in both dictionaries and
  a cell mask with a cell for each pair of a satellite and a signal. It is the condition
  under which the loops over the cells raise neither \<^verbatim>\<open>KeyError\<close> nor \<^verbatim>\<open>IndexError\<close>.
\<close>

definition ctx_ok :: "ssr \<Rightarrow> bool" where
  "ctx_ok s = list_all (\<lambda>(i, sys).
     gsys s sys \<noteq> None \<and> gsig s sys \<noteq> None \<and> i < length (cellmask s) \<and>
     length (sats_of s sys) * length (sigs_of s sys) \<le> length (cellmask s ! i))
     (enumerate 0 (satsys s))"

text \<open>
  The loops over the cells of \<^const>\<open>cb_sys\<close>, \<^const>\<open>st5_sys\<close> and \<^const>\<open>pbias_sys\<close> differ in
  the body of a cell only. This is their common shape, with that body as a parameter.
\<close>

definition cells_sys ::
  "ssr \<Rightarrow> (nat \<Rightarrow> string \<Rightarrow> string \<Rightarrow> nat \<times> nat \<times> row list \<Rightarrow> (nat \<times> nat \<times> row list) flow)
     \<Rightarrow> nat \<times> string \<Rightarrow> nat \<times> row list \<Rightarrow> (nat \<times> row list) flow" where
  "cells_sys s cellf = (\<lambda>(i, satsys) (pos, rows).
     bindF (dict_get (gsys s) satsys) (\<lambda>sats.
     bindF (forF sats (0, pos, rows) (\<lambda>gsys acc.
              bindF (dict_get (gsig s) satsys) (\<lambda>sigs.
              forF sigs acc (cellf i gsys))))
       (\<lambda>(pos_mask, pos, rows). Next (pos, rows))))"

text \<open>The bits that the satellites need in the HAS orbit message.\<close>

definition has_orbit_need :: "ssr \<Rightarrow> nat" where
  "has_orbit_need s =
     sum_list (map (\<lambda>sys. (iode_width sys + 13 + 12 + 12) * length (sats_of s sys)) (satsys s))"

text \<open>
  A mask context with the one satellite G01, and the same with one signal, one active
  cell and one satellite announced by an RTCM SSR header.
\<close>

definition one_gps :: ssr where
  "one_gps = ssr_init\<lparr> satsys := [''G''], gsys := [''G'' \<mapsto> [''G01'']] \<rparr>"

definition one_cell :: ssr where
  "one_cell = one_gps\<lparr> gsig := [''G'' \<mapsto> [''L1 C/A'']], cellmask := [[True]],
                       ssr_nsat := 1 \<rparr>"

section \<open>Reading bit fields\<close>

lemma foldl_bits_shift:
  "foldl (\<lambda>acc b. 2 * acc + (if b then 1 else 0)) a bs =
   a * 2 ^ length bs + foldl (\<lambda>acc b. 2 * acc + (if b then 1 else 0)) (0::nat) bs"
proof (induction bs arbitrary: a)
  case Nil
  then show ?case by simp
next
  case (Cons b bs)
  show ?case
    using Cons.IH [of "2 * a + (if b then 1 else 0)"] Cons.IH [of "if b then 1 else 0"]
    by (simp add: algebra_simps)
qed

lemma bits_nat_Nil: "bits_nat [] = 0"
  by (simp add: bits_nat_def)

lemma bits_nat_Cons:
  "bits_nat (b # bs) = (if b then 2 ^ length bs else 0) + bits_nat bs"
  using foldl_bits_shift [of "if b then 1 else 0" bs] by (simp add: bits_nat_def)

lemma bits_nat_lt: "bits_nat bs < 2 ^ length bs"
  by (induction bs) (simp_all add: bits_nat_Cons bits_nat_Nil)

lemma bits_nat_eq_0_iff: "bits_nat bs = 0 \<longleftrightarrow> bs = replicate (length bs) False"
  by (induction bs) (simp_all add: bits_nat_Cons bits_nat_Nil)

lemma bits_int_Cons:
  "bits_int (b # bs) = (if b then int (bits_nat bs) - 2 ^ length bs else int (bits_nat bs))"
  by (simp add: bits_int_def bits_nat_Cons)

lemma bits_int_min_iff:
  "bits_int (b # bs) = - (2 ^ length bs) \<longleftrightarrow> b \<and> bs = replicate (length bs) False"
proof (cases b)
  case True
  then show ?thesis
    using bits_nat_eq_0_iff [of bs] by (simp add: bits_int_Cons)
next
  case False
  have "(0::int) \<le> int (bits_nat bs)" by simp
  moreover have "- (2 ^ length bs) < (0::int)" by simp
  ultimately have "int (bits_nat bs) \<noteq> - (2 ^ length bs)" by linarith
  then show ?thesis using False by (simp add: bits_int_Cons)
qed

lemma bits_int_eq_0_iff:
  "bits_int (b # bs) = 0 \<longleftrightarrow> \<not> b \<and> bs = replicate (length bs) False"
proof (cases b)
  case True
  have "int (bits_nat bs) < 2 ^ length bs"
    using bits_nat_lt [of bs] by (metis of_nat_less_iff of_nat_numeral of_nat_power)
  then show ?thesis using True by (simp add: bits_int_Cons)
next
  case False
  then show ?thesis
    using bits_nat_eq_0_iff [of bs] by (simp add: bits_int_Cons)
qed

lemma bits_int_ge: "- (2 ^ length bs) \<le> bits_int (b # bs)"
proof -
  have "(0::int) \<le> int (bits_nat bs)" by simp
  moreover have "(0::int) \<le> 2 ^ length bs" by simp
  ultimately have "- (2 ^ length bs) \<le> int (bits_nat bs)" by linarith
  then show ?thesis by (simp add: bits_int_Cons)
qed

lemma bin_inj: "bin bs = bin bs' \<longleftrightarrow> bs = bs'"
proof (induction bs arbitrary: bs')
  case Nil
  then show ?case by (cases bs') (simp_all add: bin_def)
next
  case (Cons b bs)
  then show ?case by (cases bs') (auto simp: bin_def)
qed

lemma bin_min13: "bin (True # replicate 12 False) = ''1000000000000''"
  by (simp add: bin_def numeral_eq_Suc)

lemma bin_min12: "bin (True # replicate 11 False) = ''100000000000''"
  by (simp add: bin_def numeral_eq_Suc)

lemma bin_max13: "bin (False # replicate 12 True) = ''0111111111111''"
  by (simp add: bin_def numeral_eq_Suc)

text \<open>The two's-complement reading of a field of \<open>n + 1\<close> bits.\<close>

lemma field_bits:
  assumes "length r = Suc n"
  shows "- (2 ^ n) \<le> bits_int r"
    and "bits_int r = - (2 ^ n) \<longleftrightarrow> r = True # replicate n False"
    and "bits_int r = 0 \<longleftrightarrow> r = replicate (Suc n) False"
    and "r \<noteq> []"
proof -
  obtain b bs where r: "r = b # bs" and l: "length bs = n"
    using assms by (cases r) simp_all
  show "- (2 ^ n) \<le> bits_int r" using bits_int_ge [of bs b] by (simp add: r l)
  show "bits_int r = - (2 ^ n) \<longleftrightarrow> r = True # replicate n False"
    using bits_int_min_iff [of b bs] by (auto simp: r l)
  show "bits_int r = 0 \<longleftrightarrow> r = replicate (Suc n) False"
    using bits_int_eq_0_iff [of b bs] by (auto simp: r l)
  show "r \<noteq> []" by (simp add: r)
qed

lemma has_d_radial_value:
  assumes "length r13 = 13"
  shows "has_d_radial r13 =
     Next (if bits_int r13 \<noteq> - (2 ^ 12) then of_int (bits_int r13) * 0.0025 else INVALID)"
proof -
  have l: "length r13 = Suc 12" using assms by simp
  have "bin r13 \<noteq> ''1000000000000'' \<longleftrightarrow> bits_int r13 \<noteq> - (2 ^ 12)"
    unfolding field_bits(2) [OF l] bin_min13 [symmetric] bin_inj ..
  then show ?thesis
    using field_bits(4) [OF l] by (simp add: has_d_radial_def int_of_def)
qed

lemma has_d_along_value:
  assumes "length r12 = 12"
  shows "has_d_along r12 =
     Next (if bits_int r12 \<noteq> - (2 ^ 11) then of_int (bits_int r12) * 0.0080 else INVALID)"
proof -
  have l: "length r12 = Suc 11" using assms by simp
  have "bin r12 \<noteq> ''100000000000'' \<longleftrightarrow> bits_int r12 \<noteq> - (2 ^ 11)"
    unfolding field_bits(2) [OF l] bin_min12 [symmetric] bin_inj ..
  then show ?thesis
    using field_bits(4) [OF l] by (simp add: has_d_along_def int_of_def)
qed

lemma has_d_cross_value:
  assumes "length r12 = 12"
  shows "has_d_cross r12 =
     Next (if bits_int r12 \<noteq> - (2 ^ 11) then of_int (bits_int r12) * 0.0080 else INVALID)"
proof -
  have l: "length r12 = Suc 11" using assms by simp
  have "bin r12 \<noteq> ''100000000000'' \<longleftrightarrow> bits_int r12 \<noteq> - (2 ^ 11)"
    unfolding field_bits(2) [OF l] bin_min12 [symmetric] bin_inj ..
  then show ?thesis
    using field_bits(4) [OF l] by (simp add: has_d_cross_def int_of_def)
qed

lemma ckful_c0_value:
  assumes "length r13 = 13"
  shows "ckful_c0 r13 m =
     Next (if bits_int r13 = - (2 ^ 12) \<or> r13 = False # replicate 12 True then INVALID
           else of_int (bits_int r13) * 0.0025 * of_nat m)"
proof -
  have l: "length r13 = Suc 12" using assms by simp
  have a: "bin r13 = ''1000000000000'' \<longleftrightarrow> bits_int r13 = - (2 ^ 12)"
    unfolding field_bits(2) [OF l] bin_min13 [symmetric] bin_inj ..
  have b: "bin r13 = ''0111111111111'' \<longleftrightarrow> r13 = False # replicate 12 True"
    unfolding bin_max13 [symmetric] bin_inj ..
  show ?thesis
    using field_bits(4) [OF l] by (auto simp: ckful_c0_def int_of_def a b)
qed


lemma bits_nat_replicate_False: "bits_nat (replicate n False) = 0"
  by (simp add: bits_nat_eq_0_iff)

lemma bits_int_replicate_False: "0 < n \<Longrightarrow> bits_int (replicate n False) = 0"
  by (cases n) (simp_all add: bits_int_Cons bits_nat_replicate_False)

lemma bits_int_sentinel: "bits_int (True # replicate n False) = - (2 ^ n)"
  by (simp add: bits_int_Cons bits_nat_replicate_False)


lemma bits_nat_append:
  "bits_nat (xs @ ys) = bits_nat xs * 2 ^ length ys + bits_nat ys"
  using foldl_bits_shift [of "bits_nat xs" ys] by (simp add: bits_nat_def)

section \<open>Properties of the header decode\<close>

lemma get_uint_Next:
  "pos < length payload \<Longrightarrow> 0 < n \<Longrightarrow>
   get_uint payload n pos = Next (bits_nat (bslice payload pos (pos + n)), pos + n)"
  by (simp add: get_uint_def uint_of_def bslice_def)

lemma get_int_Next:
  "pos < length payload \<Longrightarrow> 0 < n \<Longrightarrow>
   get_int payload n pos = Next (bits_int (bslice payload pos (pos + n)), pos + n)"
  by (simp add: get_int_def int_of_def bslice_def)

text \<open>
  Claim C10. A payload in which no bit is set is null padding for the CSSR header
  decode: for every such payload, of any length, and every object, the decode adds the
  bit length of the payload to \<^verbatim>\<open>stat_bnull\<close>, sets the subtype to 0 and returns
  position 0. No other field of the object changes (no header field is read), and the
  result is a return, not an exception.
\<close>

theorem head_null_padding:
  "True \<notin> set payload \<Longrightarrow>
   decode_cssr_head s payload =
     Inr (s\<lparr>stat_bnull := stat_bnull s + int (length payload), subtype := 0\<rparr>, 0,
          [NullData (length payload)])"
  by (simp add: decode_cssr_head_def truthy_def)

theorem head_null_padding_witness:
  "True \<notin> set (replicate 20 False) \<and>
   decode_cssr_head ssr_init (replicate 20 False) =
     Inr (ssr_init\<lparr>stat_bnull := 20, subtype := 0\<rparr>, 0, [NullData 20])"
  using head_null_padding [of "replicate 20 False" ssr_init]
  by (simp add: ssr_init_def)

text \<open>
  Claim C8. A payload of at least 12 bits with some bit set whose first 12 bits, read
  as an unsigned number, differ from 4073 is treated as null data by the CSSR header
  decode: it adds the bit length of the payload to \<^verbatim>\<open>stat_bnull\<close>, sets the subtype to
  0 and returns position 0, and it raises nothing. Besides these it records the message
  number it read.
\<close>

theorem head_msgnum_mismatch:
  assumes "True \<in> set payload" and "12 \<le> length payload"
    and "bits_nat (take 12 payload) \<noteq> 4073"
  shows "decode_cssr_head s payload =
     Inr (s\<lparr>msgnum := bits_nat (take 12 payload),
            stat_bnull := stat_bnull s + int (length payload), subtype := 0\<rparr>, 0,
          [BadMsgnum (bits_nat (take 12 payload)) (length payload) payload])"
proof -
  have "get_uint payload 12 0 = Next (bits_nat (take 12 payload), 12)"
    using assms(2) by (auto simp: get_uint_def uint_of_def bslice_def)
  then show ?thesis
    using assms by (simp add: decode_cssr_head_def truthy_def)
qed

theorem head_msgnum_mismatch_witness:
  "True \<in> set (replicate 11 False @ [True]) \<and> 12 \<le> length (replicate 11 False @ [True]) \<and>
   bits_nat (take 12 (replicate 11 False @ [True])) \<noteq> 4073 \<and>
   decode_cssr_head ssr_init (replicate 11 False @ [True]) =
     Inr (ssr_init\<lparr>msgnum := 1, stat_bnull := 12, subtype := 0\<rparr>, 0,
          [BadMsgnum 1 12 (replicate 11 False @ [True])])"
proof -
  let ?p = "replicate 11 False @ [True]"
  have h1: "True \<in> set ?p" by simp
  have h2: "12 \<le> length ?p" by simp
  have b: "bits_nat (take 12 ?p) = 1" by code_simp
  have h3: "bits_nat (take 12 ?p) \<noteq> 4073" unfolding b by simp
  have "decode_cssr_head ssr_init ?p =
     Inr (ssr_init\<lparr>msgnum := 1, stat_bnull := 12, subtype := 0\<rparr>, 0, [BadMsgnum 1 12 ?p])"
    unfolding head_msgnum_mismatch [OF h1 h2 h3, of ssr_init] b
    by (simp add: ssr_init_def)
  with h1 h2 h3 show ?thesis by blast
qed

section \<open>The orbit and clock decoders of subtypes 2 and 3\<close>

lemma st3_sat_step:
  "st3_sat payload g (pos, rows) =
     (if length payload < pos + 15 then Return0
      else Next (pos + 15, rows @ [ClockRow g (st3_c0 (bits_int (bslice payload pos (pos + 15))))]))"
proof (cases "length payload < pos + 15")
  case True
  then show ?thesis by (simp add: st3_sat_def)
next
  case False
  then have "get_int payload 15 pos = Next (bits_int (bslice payload pos (pos + 15)), pos + 15)"
    by (intro get_int_Next) simp_all
  then show ?thesis using False by (simp add: st3_sat_def)
qed

lemma st3_sat_loop:
  "forF gs (pos, rows) (st3_sat payload) =
     (if gs \<noteq> [] \<and> length payload < pos + 15 * length gs then Return0
      else Next (pos + 15 * length gs, rows @ st3_rows payload gs pos))"
proof (induction gs arbitrary: pos rows)
  case Nil
  show ?case by simp
next
  case (Cons g gs)
  show ?case by (auto simp: st3_sat_step Cons.IH)
qed

lemma st3_sys_step:
  "gsys s sys = Some sats \<Longrightarrow>
   st3_sys s payload sys acc = forF sats acc (st3_sat payload)"
  by (simp add: st3_sys_def dict_get_def)

lemma st3_sys_loop:
  assumes "\<forall>sys \<in> set syss. gsys s sys \<noteq> None"
  shows "forF syss (pos, rows) (st3_sys s payload) =
     (if 0 < st3_need s syss \<and> length payload < pos + st3_need s syss then Return0
      else Next (pos + st3_need s syss, rows @ st3_all_rows s payload syss pos))"
  using assms
proof (induction syss arbitrary: pos rows)
  case Nil
  show ?case by simp
next
  case (Cons sys syss)
  from Cons.prems obtain sats where g: "gsys s sys = Some sats" by auto
  have so: "sats_of s sys = sats" by (simp add: sats_of_def g)
  have ih: "forF syss (p, r) (st3_sys s payload) =
     (if 0 < st3_need s syss \<and> length payload < p + st3_need s syss then Return0
      else Next (p + st3_need s syss, r @ st3_all_rows s payload syss p))" for p r
    using Cons.IH [of p r] Cons.prems by simp
  show ?case
    by (auto simp: st3_sys_step [OF g] so st3_sat_loop ih)
qed

lemma decode_cssr_st3_result:
  assumes "\<forall>sys \<in> set (satsys s). gsys s sys \<noteq> None"
  shows "decode_cssr_st3 s payload pos =
     (if 0 < st3_need s (satsys s) \<and> length payload < pos + st3_need s (satsys s)
      then Inr (s, 0, [])
      else Inr (s\<lparr> stat_both := stat_both s + int pos,
                   stat_bsat := stat_bsat s + int (st3_need s (satsys s)) \<rparr>,
                pos + st3_need s (satsys s), st3_all_rows s payload (satsys s) pos))"
  by (simp add: decode_cssr_st3_def run_def st3_sys_loop [OF assms])

lemma st2_sat_step:
  assumes "0 < bw"
  shows "st2_sat payload bw g (pos, rows) =
     (if length payload < pos + bw + 15 + 13 + 13 then Return0
      else Next (pos + bw + 15 + 13 + 13, rows @ st2_rows payload bw [g] pos))"
proof (cases "length payload < pos + bw + 15 + 13 + 13")
  case True
  then show ?thesis by (simp add: st2_sat_def)
next
  case False
  have r1: "get_uint payload bw pos = Next (bits_nat (bslice payload pos (pos + bw)), pos + bw)"
    using False assms by (intro get_uint_Next) simp_all
  have r2: "get_int payload 15 (pos + bw) =
      Next (bits_int (bslice payload (pos + bw) (pos + bw + 15)), pos + bw + 15)"
    using False by (intro get_int_Next) simp_all
  have r3: "get_int payload 13 (pos + bw + 15) =
      Next (bits_int (bslice payload (pos + bw + 15) (pos + bw + 15 + 13)), pos + bw + 15 + 13)"
    using False by (intro get_int_Next) simp_all
  have r4: "get_int payload 13 (pos + bw + 15 + 13) =
      Next (bits_int (bslice payload (pos + bw + 15 + 13) (pos + bw + 15 + 13 + 13)),
            pos + bw + 15 + 13 + 13)"
    using False by (intro get_int_Next) simp_all
  show ?thesis
    unfolding st2_sat_def using False by (simp only: r1 r2 r3 r4 bindF.simps split if_False st2_rows.simps)
qed

lemma st2_sat_loop:
  assumes "0 < bw"
  shows "forF gs (pos, rows) (st2_sat payload bw) =
     (if gs \<noteq> [] \<and> length payload < pos + (bw + 15 + 13 + 13) * length gs then Return0
      else Next (pos + (bw + 15 + 13 + 13) * length gs, rows @ st2_rows payload bw gs pos))"
proof (induction gs arbitrary: pos rows)
  case Nil
  show ?case by simp
next
  case (Cons g gs)
  show ?case by (auto simp: st2_sat_step [OF assms] Cons.IH add.assoc)
qed

lemma st2_sys_step:
  "gsys s sys = Some sats \<Longrightarrow>
   st2_sys s payload sys acc = forF sats acc (st2_sat payload (iode_width sys))"
  by (simp add: st2_sys_def dict_get_def iode_width_def)

lemma st2_sys_loop:
  assumes "\<forall>sys \<in> set syss. gsys s sys \<noteq> None"
  shows "forF syss (pos, rows) (st2_sys s payload) =
     (if 0 < st2_need s syss \<and> length payload < pos + st2_need s syss then Return0
      else Next (pos + st2_need s syss, rows @ st2_all_rows s payload syss pos))"
  using assms
proof (induction syss arbitrary: pos rows)
  case Nil
  show ?case by simp
next
  case (Cons sys syss)
  from Cons.prems obtain sats where g: "gsys s sys = Some sats" by auto
  have so: "sats_of s sys = sats" by (simp add: sats_of_def g)
  have w: "0 < iode_width sys" by (simp add: iode_width_def)
  have ih: "forF syss (p, r) (st2_sys s payload) =
     (if 0 < st2_need s syss \<and> length payload < p + st2_need s syss then Return0
      else Next (p + st2_need s syss, r @ st2_all_rows s payload syss p))" for p r
    using Cons.IH [of p r] Cons.prems by simp
  show ?case
    by (auto simp: st2_sys_step [OF g] so st2_sat_loop [OF w] ih)
qed

lemma decode_cssr_st2_result:
  assumes "\<forall>sys \<in> set (satsys s). gsys s sys \<noteq> None"
  shows "decode_cssr_st2 s payload pos =
     (if 0 < st2_need s (satsys s) \<and> length payload < pos + st2_need s (satsys s)
      then Inr (s, 0, [])
      else Inr (s\<lparr> stat_both := stat_both s + int pos,
                   stat_bsat := stat_bsat s + int (st2_need s (satsys s)) \<rparr>,
                pos + st2_need s (satsys s), st2_all_rows s payload (satsys s) pos))"
  by (simp add: decode_cssr_st2_def run_def st2_sys_loop [OF assms])


lemma one_gps_keys: "\<forall>sys \<in> set (satsys one_gps). gsys one_gps sys \<noteq> None"
  by (simp add: one_gps_def)

lemma one_gps_need: "st2_need one_gps (satsys one_gps) = 49"
  by (simp add: one_gps_def sats_of_def iode_width_def)

section \<open>Sentinels and the INVALID marker\<close>

text \<open>
  Claim C2, amended. For the scaled fields ST2 radial, ST3 clock and ST5 phase bias
  (15 bits), the code bias of ST4 and HAS and the HAS phase bias (11 bits), and the HAS
  orbit fields (13, 12 and 12 bits), the sentinel is the most-negative value of the
  width of the field: no value of the field lies below it, and the decoded value is
  \<^const>\<open>INVALID\<close> exactly when the raw value is that sentinel or 0 (\<^const>\<open>INVALID\<close> is the
  number 0). In the HAS clock full-set message the pattern 0111111111111 maps to
  \<^const>\<open>INVALID\<close> as well. The along-track and cross-track fields of ST2 are left out.
\<close>

theorem sentinel_most_negative:
  assumes "length r15 = 15" and "length r13 = 13" and "length r12 = 12"
    and "length r11 = 11" and "0 < m"
  shows
   "(- (2 ^ 14) \<le> bits_int r15 \<and> - (2 ^ 12) \<le> bits_int r13 \<and>
     - (2 ^ 11) \<le> bits_int r12 \<and> - (2 ^ 10) \<le> bits_int r11) \<and>
    (st2_d_radial (bits_int r15) = INVALID \<longleftrightarrow> bits_int r15 = - (2 ^ 14) \<or> bits_int r15 = 0) \<and>
    (st3_c0 (bits_int r15) = INVALID \<longleftrightarrow> bits_int r15 = - (2 ^ 14) \<or> bits_int r15 = 0) \<and>
    (st5_pb (bits_int r15) = INVALID \<longleftrightarrow> bits_int r15 = - (2 ^ 14) \<or> bits_int r15 = 0) \<and>
    (cb_code_bias (bits_int r11) = INVALID \<longleftrightarrow> bits_int r11 = - (2 ^ 10) \<or> bits_int r11 = 0) \<and>
    (has_pb (bits_int r11) = INVALID \<longleftrightarrow> bits_int r11 = - (2 ^ 10) \<or> bits_int r11 = 0) \<and>
    (has_d_radial r13 = Next INVALID \<longleftrightarrow> bits_int r13 = - (2 ^ 12) \<or> bits_int r13 = 0) \<and>
    (has_d_along r12 = Next INVALID \<longleftrightarrow> bits_int r12 = - (2 ^ 11) \<or> bits_int r12 = 0) \<and>
    (has_d_cross r12 = Next INVALID \<longleftrightarrow> bits_int r12 = - (2 ^ 11) \<or> bits_int r12 = 0) \<and>
    (ckful_c0 r13 m = Next INVALID \<longleftrightarrow>
       bits_int r13 = - (2 ^ 12) \<or> r13 = False # replicate 12 True \<or> bits_int r13 = 0)"
proof -
  have l15: "length r15 = Suc 14" and l13: "length r13 = Suc 12"
    and l12: "length r12 = Suc 11" and l11: "length r11 = Suc 10"
    using assms by simp_all
  have lower: "- (2 ^ 14) \<le> bits_int r15 \<and> - (2 ^ 12) \<le> bits_int r13 \<and>
     - (2 ^ 11) \<le> bits_int r12 \<and> - (2 ^ 10) \<le> bits_int r11"
    using field_bits(1) [OF l15] field_bits(1) [OF l13] field_bits(1) [OF l12]
      field_bits(1) [OF l11] by simp
  have f1: "st2_d_radial (bits_int r15) = INVALID \<longleftrightarrow> bits_int r15 = - (2 ^ 14) \<or> bits_int r15 = 0"
    by (simp add: st2_d_radial_def INVALID_def)
  have f2: "st3_c0 (bits_int r15) = INVALID \<longleftrightarrow> bits_int r15 = - (2 ^ 14) \<or> bits_int r15 = 0"
    by (simp add: st3_c0_def INVALID_def)
  have f3: "st5_pb (bits_int r15) = INVALID \<longleftrightarrow> bits_int r15 = - (2 ^ 14) \<or> bits_int r15 = 0"
    by (simp add: st5_pb_def INVALID_def)
  have f4: "cb_code_bias (bits_int r11) = INVALID \<longleftrightarrow> bits_int r11 = - (2 ^ 10) \<or> bits_int r11 = 0"
    by (simp add: cb_code_bias_def INVALID_def)
  have f5: "has_pb (bits_int r11) = INVALID \<longleftrightarrow> bits_int r11 = - (2 ^ 10) \<or> bits_int r11 = 0"
    by (simp add: has_pb_def INVALID_def)
  have f6: "has_d_radial r13 = Next INVALID \<longleftrightarrow> bits_int r13 = - (2 ^ 12) \<or> bits_int r13 = 0"
    by (simp add: has_d_radial_value [OF assms(2)] INVALID_def)
  have f7: "has_d_along r12 = Next INVALID \<longleftrightarrow> bits_int r12 = - (2 ^ 11) \<or> bits_int r12 = 0"
    by (simp add: has_d_along_value [OF assms(3)] INVALID_def)
  have f8: "has_d_cross r12 = Next INVALID \<longleftrightarrow> bits_int r12 = - (2 ^ 11) \<or> bits_int r12 = 0"
    by (simp add: has_d_cross_value [OF assms(3)] INVALID_def)
  have f9: "ckful_c0 r13 m = Next INVALID \<longleftrightarrow>
       bits_int r13 = - (2 ^ 12) \<or> r13 = False # replicate 12 True \<or> bits_int r13 = 0"
    using assms(5) by (auto simp: ckful_c0_value [OF assms(2)] INVALID_def)
  from lower f1 f2 f3 f4 f5 f6 f7 f8 f9 show ?thesis by blast
qed

theorem sentinel_most_negative_witness:
  "length [True, False, False, False, False, False, False, False, False, False, False,
     False, False, False, False] = 15 \<and>
   length [True, False, False, False, False, False, False, False, False, False, False,
     False, False] = 13 \<and>
   length [True, False, False, False, False, False, False, False, False, False, False,
     False] = 12 \<and>
   length [True, False, False, False, False, False, False, False, False, False, False] = 11 \<and>
   (0::nat) < 1 \<and>
   st2_d_radial (bits_int [True, False, False, False, False, False, False, False, False,
     False, False, False, False, False, False]) = INVALID \<and>
   cb_code_bias (bits_int [True, False, False, False, False, False, False, False, False,
     False, False]) = INVALID \<and>
   has_d_radial [True, False, False, False, False, False, False, False, False, False, False,
     False, False] = Next INVALID \<and>
   has_d_along [True, False, False, False, False, False, False, False, False, False, False,
     False] = Next INVALID \<and>
   ckful_c0 [True, False, False, False, False, False, False, False, False, False, False,
     False, False] 1 = Next INVALID"
proof -
  let ?r15 = "[True, False, False, False, False, False, False, False, False, False, False,
     False, False, False, False]"
  let ?r13 = "[True, False, False, False, False, False, False, False, False, False, False,
     False, False]"
  let ?r12 = "[True, False, False, False, False, False, False, False, False, False, False,
     False]"
  let ?r11 = "[True, False, False, False, False, False, False, False, False, False, False]"
  have l15: "length ?r15 = 15" and l13: "length ?r13 = 13" and l12: "length ?r12 = 12"
    and l11: "length ?r11 = 11" and m: "(0::nat) < 1"
    by simp_all
  have v: "bits_int ?r15 = - (2 ^ 14)" "bits_int ?r13 = - (2 ^ 12)"
    "bits_int ?r12 = - (2 ^ 11)" "bits_int ?r11 = - (2 ^ 10)"
    by (simp_all add: bits_int_def bits_nat_def)
  from sentinel_most_negative [OF l15 l13 l12 l11 m] v l15 l13 l12 l11 m
  show ?thesis by metis
qed

theorem ckful_second_sentinel:
  "ckful_c0 [False, True, True, True, True, True, True, True, True, True, True, True, True] 1
     = Next INVALID \<and>
   bits_int [False, True, True, True, True, True, True, True, True, True, True, True, True]
     = 4095 \<and>
   - (2 ^ 12) \<le> bits_int [True, False, False, False, False, False, False, False, False,
     False, False, False, False]"
  by (simp add: ckful_c0_def bin_def bits_int_def bits_nat_def)

text \<open>
  Claim C1, amended. The marker \<^const>\<open>INVALID\<close> is the number 0. The scaled fields
  ST2 radial, ST3 clock, ST4 and HAS code bias, ST5 phase bias and HAS phase bias decode
  the sentinel of the field to \<^const>\<open>INVALID\<close> and every other raw value to the raw
  value times the resolution; so the decoded value equals \<^const>\<open>INVALID\<close> exactly when
  the raw value is the sentinel or 0, and the marker is distinct from every decoded
  value but that of the raw value 0. The along-track and cross-track fields of ST2 are
  left out.
\<close>

theorem invalid_is_zero:
  "INVALID = 0 \<and>
   (st2_d_radial raw = INVALID \<longleftrightarrow> raw = -16384 \<or> raw = 0) \<and>
   (st3_c0 raw = INVALID \<longleftrightarrow> raw = -16384 \<or> raw = 0) \<and>
   (cb_code_bias raw = INVALID \<longleftrightarrow> raw = -1024 \<or> raw = 0) \<and>
   (st5_pb raw = INVALID \<longleftrightarrow> raw = -16384 \<or> raw = 0) \<and>
   (has_pb raw = INVALID \<longleftrightarrow> raw = -1024 \<or> raw = 0)"
  by (simp add: INVALID_def st2_d_radial_def st3_c0_def cb_code_bias_def st5_pb_def
      has_pb_def)

theorem sentinel_row_equals_zero_row:
  "rows_of (decode_cssr_st2 one_gps
      (replicate 8 False @ (True # replicate 14 False) @ replicate 26 False) 0) =
     [OrbitRow ''G01'' 0 0 0 0] \<and>
   rows_of (decode_cssr_st2 one_gps (replicate 49 False) 0) = [OrbitRow ''G01'' 0 0 0 0]"
proof -
  have a: "rows_of (decode_cssr_st2 one_gps
      (replicate 8 False @ (True # replicate 14 False) @ replicate 26 False) 0) =
     [OrbitRow ''G01'' 0 0 0 0]"
    unfolding decode_cssr_st2_result [OF one_gps_keys] one_gps_need
    by (simp add: rows_of_def one_gps_def sats_of_def iode_width_def bslice_def
        bits_nat_replicate_False bits_int_replicate_False bits_int_sentinel
        st2_d_radial_def st2_d_along_def st2_d_cross_def INVALID_def)
  have b: "rows_of (decode_cssr_st2 one_gps (replicate 49 False) 0) = [OrbitRow ''G01'' 0 0 0 0]"
    unfolding decode_cssr_st2_result [OF one_gps_keys] one_gps_need
    by (simp add: rows_of_def one_gps_def sats_of_def iode_width_def bslice_def
        bits_nat_replicate_False bits_int_replicate_False
        st2_d_radial_def st2_d_along_def st2_d_cross_def INVALID_def)
  from a b show ?thesis ..
qed

section \<open>The HAS clock subset message\<close>

lemma uint4_lt_16: "bits_nat (bslice payload a (a + 4)) < 16"
proof -
  have "bits_nat (bslice payload a (a + 4)) < 2 ^ length (bslice payload a (a + 4))"
    by (rule bits_nat_lt)
  also have "\<dots> \<le> 2 ^ 4"
    by (rule power_increasing) (simp_all add: bslice_def)
  finally show ?thesis by simp
qed

lemma HAS_VI_get:
  "list_get HAS_VI (bits_nat (bslice payload pos (pos + 4))) =
     Next (HAS_VI ! bits_nat (bslice payload pos (pos + 4)))"
  using uint4_lt_16 [of payload pos] by (simp add: list_get_def HAS_VI_def)

lemma cksub_turn_raises:
  "cksub_turn payload i (pos, rows) =
     Raise (if length payload \<le> pos + 4 then InterpretError else NameError)"
  by (simp add: cksub_turn_def get_uint_def uint_of_def bslice_def)

lemma cksub_result:
  assumes "pos + 6 \<le> length payload"
  shows "decode_has_cksub s payload pos =
           Inl (if length payload < pos + 11 then InterpretError else NameError)"
proof -
  have vi: "get_uint payload 4 pos = Next (bits_nat (bslice payload pos (pos + 4)), pos + 4)"
    using assms by (intro get_uint_Next) simp_all
  have n: "get_uint payload 2 (pos + 4) =
             Next (bits_nat (bslice payload (pos + 4) (pos + 4 + 2)), pos + 4 + 2)"
    using assms by (intro get_uint_Next) simp_all
  have loop: "forF [0..<Suc k] (p, rows) (cksub_turn payload) =
                Raise (if length payload \<le> p + 4 then InterpretError else NameError)"
    for k p rows
    by (simp add: upt_conv_Cons cksub_turn_raises del: upt_Suc)
  show ?thesis
    using assms
    by (simp add: decode_has_cksub_def run_def vi n HAS_VI_get loop Let_def del: upt_Suc)
qed

text \<open>
  Claim C9, amended. On every payload that passes the initial length check of
  \<^verbatim>\<open>decode_has_cksub\<close> (at least 6 bits from the starting position on) the function
  raises in the first turn of its subset loop and so never returns: it raises
  \<^verbatim>\<open>NameError\<close> for the unbound name \<^verbatim>\<open>multiplier\<close> when at least 11 bits follow the
  starting position, and \<^verbatim>\<open>InterpretError\<close> before it gets there when only 6 to 10
  bits do, since the two reads ahead of the assignment then meet an empty slice.
\<close>

theorem cksub_never_returns:
  "pos + 6 \<le> length payload \<Longrightarrow>
   decode_has_cksub s payload pos =
     Inl (if length payload < pos + 11 then InterpretError else NameError)"
  by (rule cksub_result)

theorem cksub_never_returns_witness:
  "0 + 6 \<le> length (replicate 11 True) \<and>
   decode_has_cksub ssr_init (replicate 11 True) 0 = Inl NameError"
  using cksub_never_returns [of 0 "replicate 11 True" ssr_init] by simp

theorem cksub_interpret_error:
  "0 + 6 \<le> length (replicate 6 False) \<and>
   decode_has_cksub ssr_init (replicate 6 False) 0 = Inl InterpretError \<and>
   decode_has_cksub ssr_init (replicate 6 False) 0 \<noteq> Inl NameError"
  using cksub_result [of 0 "replicate 6 False" ssr_init] by simp

section \<open>Payloads that end early\<close>

text \<open>
  The RTCM SSR decoders check no length: a read at or after the end of the payload
  raises in the header and in the first turn of each loop over the satellites.
\<close>

lemma get_uint_empty:
  "length payload \<le> pos \<Longrightarrow> get_uint payload n pos = Raise InterpretError"
  by (simp add: get_uint_def uint_of_def bslice_def)

lemma ssr_first_turn: "0 < n \<Longrightarrow> [0..<n] = 0 # [1..<n]"
  by (simp add: upt_conv_Cons)

lemma ssr_head_raises:
  "length payload \<le> pos \<Longrightarrow> ssr_decode_head s payload pos sys mtype = Inl InterpretError"
  by (simp add: ssr_decode_head_def run_def get_uint_empty Let_def)

lemma ssr_orbit_raises_general:
  assumes "length payload \<le> pos" and "0 < ssr_nsat s"
  shows "ssr_decode_orbit s payload pos sys = Inl InterpretError"
  using assms(1)
  by (simp add: ssr_decode_orbit_def run_def ssr_first_turn [OF assms(2)] ssr_orbit_sat_def
      get_uint_empty Let_def)

lemma ssr_clock_raises_general:
  assumes "length payload \<le> pos" and "0 < ssr_nsat s"
  shows "ssr_decode_clock s payload pos sys = Inl InterpretError"
  using assms(1)
  by (simp add: ssr_decode_clock_def run_def ssr_first_turn [OF assms(2)] ssr_clock_sat_def
      get_uint_empty Let_def)

lemma ssr_code_bias_raises_general:
  assumes "length payload \<le> pos" and "0 < ssr_nsat s"
  shows "ssr_decode_code_bias s payload pos sys = Inl InterpretError"
  using assms(1)
  by (simp add: ssr_decode_code_bias_def run_def ssr_first_turn [OF assms(2)]
      ssr_code_bias_sat_def get_uint_empty Let_def)

lemma ssr_ura_raises_general:
  assumes "length payload \<le> pos" and "0 < ssr_nsat s"
  shows "ssr_decode_ura s payload pos sys = Inl InterpretError"
  using assms(1)
  by (simp add: ssr_decode_ura_def run_def ssr_first_turn [OF assms(2)] ssr_ura_sat_def
      get_uint_empty Let_def)

lemma ssr_hr_clock_raises_general:
  assumes "length payload \<le> pos" and "0 < ssr_nsat s"
  shows "ssr_decode_hr_clock s payload pos sys = Inl InterpretError"
  using assms(1)
  by (simp add: ssr_decode_hr_clock_def run_def ssr_first_turn [OF assms(2)]
      ssr_hr_clock_sat_def get_uint_empty Let_def)

text \<open>
  Loops whose turns check the length they need: such a loop returns 0 when the payload
  is shorter than the position plus the sum of what the turns need, and advances by
  that sum otherwise.
\<close>

lemma forF_need:
  fixes nd :: "'x \<Rightarrow> nat" and len :: nat and posf :: "'acc \<Rightarrow> nat"
  assumes short: "\<And>x acc. x \<in> set xs \<Longrightarrow> 0 < nd x \<Longrightarrow> len < posf acc + nd x
                    \<Longrightarrow> body x acc = Return0"
    and ok: "\<And>x acc. x \<in> set xs \<Longrightarrow> nd x = 0 \<or> posf acc + nd x \<le> len
                    \<Longrightarrow> \<exists>acc'. body x acc = Next acc' \<and> posf acc' = posf acc + nd x"
  shows "(0 < sum_list (map nd xs) \<and> len < posf acc + sum_list (map nd xs)
            \<longrightarrow> forF xs acc body = Return0) \<and>
         (sum_list (map nd xs) = 0 \<or> posf acc + sum_list (map nd xs) \<le> len
            \<longrightarrow> (\<exists>acc'. forF xs acc body = Next acc' \<and>
                   posf acc' = posf acc + sum_list (map nd xs)))"
  using assms
proof (induction xs arbitrary: acc)
  case Nil
  show ?case by simp
next
  case (Cons x xs)
  let ?N = "sum_list (map nd xs)"
  have ih: "(0 < ?N \<and> len < posf a + ?N \<longrightarrow> forF xs a body = Return0) \<and>
         (?N = 0 \<or> posf a + ?N \<le> len
            \<longrightarrow> (\<exists>acc'. forF xs a body = Next acc' \<and> posf acc' = posf a + ?N))" for a
    by (rule Cons.IH) (simp_all add: Cons.prems)
  have sh: "0 < nd x \<Longrightarrow> len < posf a + nd x \<Longrightarrow> body x a = Return0" for a
    by (rule Cons.prems(1)) simp_all
  have okx: "nd x = 0 \<or> posf a + nd x \<le> len
      \<Longrightarrow> \<exists>acc'. body x a = Next acc' \<and> posf acc' = posf a + nd x" for a
    by (rule Cons.prems(2)) simp_all
  show ?case
  proof (intro conjI impI)
    assume a: "0 < sum_list (map nd (x # xs)) \<and> len < posf acc + sum_list (map nd (x # xs))"
    show "forF (x # xs) acc body = Return0"
    proof (cases "0 < nd x \<and> len < posf acc + nd x")
      case True
      then show ?thesis using sh [of acc] by simp
    next
      case False
      then have "nd x = 0 \<or> posf acc + nd x \<le> len" by auto
      from okx [OF this] obtain acc' where
        b: "body x acc = Next acc'" and p: "posf acc' = posf acc + nd x" by blast
      have "0 < ?N \<and> len < posf acc' + ?N" using a False p by auto
      then have "forF xs acc' body = Return0" using ih [of acc'] by blast
      then show ?thesis by (simp add: b)
    qed
  next
    assume a: "sum_list (map nd (x # xs)) = 0 \<or> posf acc + sum_list (map nd (x # xs)) \<le> len"
    then have "nd x = 0 \<or> posf acc + nd x \<le> len" by auto
    from okx [OF this] obtain acc' where
      b: "body x acc = Next acc'" and p: "posf acc' = posf acc + nd x" by blast
    have "?N = 0 \<or> posf acc' + ?N \<le> len" using a p by auto
    then obtain acc'' where "forF xs acc' body = Next acc''" "posf acc'' = posf acc' + ?N"
      using ih [of acc'] by blast
    then show "\<exists>acc'. forF (x # xs) acc body = Next acc' \<and>
         posf acc' = posf acc + sum_list (map nd (x # xs))"
      by (simp add: b p)
  qed
qed

lemma mask_keys_okD:
  "mask_keys_ok s \<Longrightarrow> sys \<in> set (satsys s) \<Longrightarrow> gsys s sys = Some (sats_of s sys)"
  by (auto simp: mask_keys_ok_def list_all_iff sats_of_def)

lemma bslice_length: "b \<le> length payload \<Longrightarrow> length (bslice payload a b) = b - a"
  by (simp add: bslice_def)

lemma sum_list_const: "sum_list (map (\<lambda>x. c) xs) = (c::nat) * length xs"
  by (induction xs) simp_all

lemma forF_need_pos:
  fixes nd :: "'x \<Rightarrow> nat" and len :: nat
  assumes short: "\<And>x pos. x \<in> set xs \<Longrightarrow> 0 < nd x \<Longrightarrow> len < pos + nd x
                    \<Longrightarrow> body x pos = Return0"
    and ok: "\<And>x pos. x \<in> set xs \<Longrightarrow> nd x = 0 \<or> pos + nd x \<le> len
                    \<Longrightarrow> body x pos = Next (pos + nd x)"
  shows "(0 < sum_list (map nd xs) \<and> len < pos + sum_list (map nd xs)
            \<longrightarrow> forF xs pos body = Return0) \<and>
         (sum_list (map nd xs) = 0 \<or> pos + sum_list (map nd xs) \<le> len
            \<longrightarrow> forF xs pos body = Next (pos + sum_list (map nd xs)))"
proof -
  have "(0 < sum_list (map nd xs) \<and> len < id pos + sum_list (map nd xs)
            \<longrightarrow> forF xs pos body = Return0) \<and>
         (sum_list (map nd xs) = 0 \<or> id pos + sum_list (map nd xs) \<le> len
            \<longrightarrow> (\<exists>acc'. forF xs pos body = Next acc' \<and>
                   id acc' = id pos + sum_list (map nd xs)))"
    by (rule forF_need [where posf = id]) (simp_all add: short ok)
  then show ?thesis by auto
qed

lemma forF_need_pair:
  fixes nd :: "'x \<Rightarrow> nat" and len :: nat and r :: "'r"
  assumes short: "\<And>x pos r. x \<in> set xs \<Longrightarrow> 0 < nd x \<Longrightarrow> len < pos + nd x
                    \<Longrightarrow> body x (pos, r) = Return0"
    and ok: "\<And>x pos r. x \<in> set xs \<Longrightarrow> nd x = 0 \<or> pos + nd x \<le> len
                    \<Longrightarrow> \<exists>r'. body x (pos, r) = Next (pos + nd x, r')"
  shows "(0 < sum_list (map nd xs) \<and> len < pos + sum_list (map nd xs)
            \<longrightarrow> forF xs (pos, r) body = Return0) \<and>
         (sum_list (map nd xs) = 0 \<or> pos + sum_list (map nd xs) \<le> len
            \<longrightarrow> (\<exists>r'. forF xs (pos, r) body = Next (pos + sum_list (map nd xs), r')))"
proof -
  have "(0 < sum_list (map nd xs) \<and> len < fst (pos, r) + sum_list (map nd xs)
            \<longrightarrow> forF xs (pos, r) body = Return0) \<and>
         (sum_list (map nd xs) = 0 \<or> fst (pos, r) + sum_list (map nd xs) \<le> len
            \<longrightarrow> (\<exists>acc'. forF xs (pos, r) body = Next acc' \<and>
                   fst acc' = fst (pos, r) + sum_list (map nd xs)))"
  proof (rule forF_need [where posf = fst])
    fix x and acc :: "nat \<times> 'r"
    assume "x \<in> set xs" "0 < nd x" "len < fst acc + nd x"
    then show "body x acc = Return0"
      using short [of x "fst acc" "snd acc"] by simp
  next
    fix x and acc :: "nat \<times> 'r"
    assume "x \<in> set xs" "nd x = 0 \<or> fst acc + nd x \<le> len"
    then show "\<exists>acc'. body x acc = Next acc' \<and> fst acc' = fst acc + nd x"
      using ok [of x "fst acc" "snd acc"] by auto
  qed
  then show ?thesis by (metis fst_conv prod.collapse)
qed

lemma st7_sat_loop:
  "(0 < length sats \<and> length payload < pos + 6 * length sats \<longrightarrow>
      forF sats pos (\<lambda>gsys pos. if length payload < pos + 6 then Return0 else
         bindF (get_uint payload 6 pos) (\<lambda>(ura, pos). Next pos)) = Return0) \<and>
   (length sats = 0 \<or> pos + 6 * length sats \<le> length payload \<longrightarrow>
      forF sats pos (\<lambda>gsys pos. if length payload < pos + 6 then Return0 else
         bindF (get_uint payload 6 pos) (\<lambda>(ura, pos). Next pos)) = Next (pos + 6 * length sats))"
proof -
  let ?body = "\<lambda>gsys pos. if length payload < pos + 6 then Return0 else
         bindF (get_uint payload 6 pos) (\<lambda>(ura, pos). Next pos)"
  have rd: "p + 6 \<le> length payload \<Longrightarrow>
      get_uint payload 6 p = Next (bits_nat (bslice payload p (p + 6)), p + 6)" for p
    by (rule get_uint_Next) simp_all
  have "(0 < sum_list (map (\<lambda>x. 6::nat) sats) \<and> length payload < pos + sum_list (map (\<lambda>x. 6::nat) sats)
            \<longrightarrow> forF sats pos ?body = Return0) \<and>
         (sum_list (map (\<lambda>x. 6::nat) sats) = 0 \<or> pos + sum_list (map (\<lambda>x. 6::nat) sats) \<le> length payload
            \<longrightarrow> forF sats pos ?body = Next (pos + sum_list (map (\<lambda>x. 6::nat) sats)))"
    by (rule forF_need_pos) (simp_all add: rd)
  then show ?thesis by (simp add: sum_list_const)
qed

lemma st7_sys_loop:
  assumes "mask_keys_ok s"
  shows "(0 < n_sats s \<and> length payload < pos + 6 * n_sats s \<longrightarrow>
            forF (satsys s) pos (st7_sys s payload) = Return0) \<and>
         (n_sats s = 0 \<or> pos + 6 * n_sats s \<le> length payload \<longrightarrow>
            forF (satsys s) pos (st7_sys s payload) = Next (pos + 6 * n_sats s))"
proof -
  let ?nd = "\<lambda>sys. 6 * length (sats_of s sys)"
  have N: "sum_list (map ?nd (satsys s)) = 6 * n_sats s"
    by (simp add: n_sats_def sum_list_const_mult)
  have st: "sys \<in> set (satsys s) \<Longrightarrow> st7_sys s payload sys pos =
      forF (sats_of s sys) pos (\<lambda>gsys pos. if length payload < pos + 6 then Return0 else
         bindF (get_uint payload 6 pos) (\<lambda>(ura, pos). Next pos))" for sys pos
    by (simp add: st7_sys_def dict_get_def mask_keys_okD [OF assms])
  have "(0 < sum_list (map ?nd (satsys s)) \<and> length payload < pos + sum_list (map ?nd (satsys s))
            \<longrightarrow> forF (satsys s) pos (st7_sys s payload) = Return0) \<and>
         (sum_list (map ?nd (satsys s)) = 0 \<or> pos + sum_list (map ?nd (satsys s)) \<le> length payload
            \<longrightarrow> forF (satsys s) pos (st7_sys s payload) = Next (pos + sum_list (map ?nd (satsys s))))"
  proof (rule forF_need_pos)
    fix x pos
    assume "x \<in> set (satsys s)" "0 < ?nd x" "length payload < pos + ?nd x"
    then show "st7_sys s payload x pos = Return0"
      using st7_sat_loop [of "sats_of s x" payload pos] by (simp add: st)
  next
    fix x pos
    assume "x \<in> set (satsys s)" "?nd x = 0 \<or> pos + ?nd x \<le> length payload"
    then show "st7_sys s payload x pos = Next (pos + ?nd x)"
      using st7_sat_loop [of "sats_of s x" payload pos] by (simp add: st)
  qed
  then show ?thesis by (simp add: N)
qed

lemma decode_cssr_st7_result:
  assumes "mask_keys_ok s"
  shows "decode_cssr_st7 s payload pos =
     (if length payload < 37 \<or> (0 < n_sats s \<and> length payload < pos + 6 * n_sats s)
      then Inr (s, 0, [])
      else Inr (s\<lparr> stat_both := stat_both s + int pos,
                   stat_bsat := stat_bsat s + int (6 * n_sats s) \<rparr>,
                pos + 6 * n_sats s, []))"
  using st7_sys_loop [OF assms, of payload pos]
  by (auto simp: decode_cssr_st7_def run_def)


lemma has_orbit_sat_short:
  "length payload < pos + bw + 13 + 12 + 12 \<Longrightarrow>
   has_orbit_sat payload bw g (pos, rows) = Return0"
  by (simp add: has_orbit_sat_def)

lemma has_fields_return:
  "length r13 = 13 \<Longrightarrow> \<exists>v. has_d_radial r13 = Next v"
  "length r12 = 12 \<Longrightarrow> \<exists>v. has_d_along r12 = Next v"
  "length r12 = 12 \<Longrightarrow> \<exists>v. has_d_cross r12 = Next v"
  "length r13 = 13 \<Longrightarrow> \<exists>v. ckful_c0 r13 m = Next v"
  by (simp_all add: has_d_radial_value has_d_along_value has_d_cross_value ckful_c0_value)

lemma has_orbit_sat_ok:
  assumes "pos + bw + 13 + 12 + 12 \<le> length payload" and "0 < bw"
  shows "\<exists>r'. has_orbit_sat payload bw g (pos, rows) = Next (pos + bw + 13 + 12 + 12, r')"
proof -
  have c: "\<not> length payload < pos + bw + 13 + 12 + 12" using assms by simp
  have r1: "get_uint payload bw pos = Next (bits_nat (bslice payload pos (pos + bw)), pos + bw)"
    using assms by (intro get_uint_Next) simp_all
  have l1: "length (bslice payload (pos + bw) (pos + bw + 13)) = 13"
    using assms by (simp add: bslice_length)
  have l2: "length (bslice payload (pos + bw + 13) (pos + bw + 13 + 12)) = 12"
    using assms by (simp add: bslice_length)
  have l3: "length (bslice payload (pos + bw + 13 + 12) (pos + bw + 13 + 12 + 12)) = 12"
    using assms by (simp add: bslice_length)
  obtain v1 where v1: "has_d_radial (bslice payload (pos + bw) (pos + bw + 13)) = Next v1"
    using has_fields_return(1) [OF l1] by blast
  obtain v2 where v2: "has_d_along (bslice payload (pos + bw + 13) (pos + bw + 13 + 12)) = Next v2"
    using has_fields_return(2) [OF l2] by blast
  obtain v3 where v3:
    "has_d_cross (bslice payload (pos + bw + 13 + 12) (pos + bw + 13 + 12 + 12)) = Next v3"
    using has_fields_return(3) [OF l3] by blast
  have "has_orbit_sat payload bw g (pos, rows) =
      Next (pos + bw + 13 + 12 + 12,
            rows @ [OrbitRow g (bits_nat (bslice payload pos (pos + bw))) v1 v2 v3])"
    unfolding has_orbit_sat_def get_bits_def
    by (simp only: c r1 v1 v2 v3 bindF.simps split if_False)
  then show ?thesis by blast
qed

lemma has_orbit_sat_loop:
  assumes "0 < bw"
  shows "(0 < length sats \<and> length payload < pos + (bw + 13 + 12 + 12) * length sats \<longrightarrow>
            forF sats (pos, rows) (has_orbit_sat payload bw) = Return0) \<and>
         (length sats = 0 \<or> pos + (bw + 13 + 12 + 12) * length sats \<le> length payload \<longrightarrow>
            (\<exists>r'. forF sats (pos, rows) (has_orbit_sat payload bw) =
                    Next (pos + (bw + 13 + 12 + 12) * length sats, r')))"
proof -
  let ?nd = "\<lambda>x::string. bw + 13 + 12 + 12"
  have "(0 < sum_list (map ?nd sats) \<and> length payload < pos + sum_list (map ?nd sats)
            \<longrightarrow> forF sats (pos, rows) (has_orbit_sat payload bw) = Return0) \<and>
         (sum_list (map ?nd sats) = 0 \<or> pos + sum_list (map ?nd sats) \<le> length payload
            \<longrightarrow> (\<exists>r'. forF sats (pos, rows) (has_orbit_sat payload bw) =
                    Next (pos + sum_list (map ?nd sats), r')))"
  proof (rule forF_need_pair)
    fix x pos r
    assume "length payload < pos + ?nd x"
    then show "has_orbit_sat payload bw x (pos, r) = Return0"
      using has_orbit_sat_short [of payload pos bw x r] by (simp add: add.assoc)
  next
    fix x pos r
    assume "?nd x = 0 \<or> pos + ?nd x \<le> length payload"
    then have "pos + bw + 13 + 12 + 12 \<le> length payload" by simp
    from has_orbit_sat_ok [OF this assms, of x r]
    show "\<exists>r'. has_orbit_sat payload bw x (pos, r) = Next (pos + ?nd x, r')"
      by (simp add: add.assoc)
  qed
  then show ?thesis by (simp add: sum_list_const)
qed

lemma has_orbit_sys_loop:
  assumes "mask_keys_ok s"
  shows "(0 < has_orbit_need s \<and> length payload < pos + has_orbit_need s \<longrightarrow>
            forF (satsys s) (pos, rows) (has_orbit_sys s payload) = Return0) \<and>
         (has_orbit_need s = 0 \<or> pos + has_orbit_need s \<le> length payload \<longrightarrow>
            (\<exists>r'. forF (satsys s) (pos, rows) (has_orbit_sys s payload) =
                    Next (pos + has_orbit_need s, r')))"
  unfolding has_orbit_need_def
proof (rule forF_need_pair)
  fix x pos r
  assume x: "x \<in> set (satsys s)"
    and "0 < (iode_width x + 13 + 12 + 12) * length (sats_of s x)"
    and "length payload < pos + (iode_width x + 13 + 12 + 12) * length (sats_of s x)"
  then show "has_orbit_sys s payload x (pos, r) = Return0"
    using has_orbit_sat_loop [of "iode_width x" "sats_of s x" payload pos r]
    by (simp add: has_orbit_sys_def dict_get_def mask_keys_okD [OF assms x] iode_width_def)
next
  fix x pos r
  assume x: "x \<in> set (satsys s)"
    and "(iode_width x + 13 + 12 + 12) * length (sats_of s x) = 0 \<or>
         pos + (iode_width x + 13 + 12 + 12) * length (sats_of s x) \<le> length payload"
  then show "\<exists>r'. has_orbit_sys s payload x (pos, r) =
      Next (pos + (iode_width x + 13 + 12 + 12) * length (sats_of s x), r')"
    using has_orbit_sat_loop [of "iode_width x" "sats_of s x" payload pos r]
    by (simp add: has_orbit_sys_def dict_get_def mask_keys_okD [OF assms x] iode_width_def)
qed

lemma decode_has_orbit_result:
  assumes "mask_keys_ok s"
  shows "if length payload < pos + 4 \<or>
            (0 < has_orbit_need s \<and> length payload < pos + 4 + has_orbit_need s)
         then decode_has_orbit s payload pos = Inr (s, 0, [])
         else \<exists>rows. decode_has_orbit s payload pos =
                Inr (s\<lparr> stat_both := stat_both s + int pos,
                        stat_bsat := stat_bsat s + int (4 + has_orbit_need s) \<rparr>,
                     pos + 4 + has_orbit_need s, rows)"
proof (cases "length payload < pos + 4")
  case True
  then show ?thesis by (simp add: decode_has_orbit_def run_def)
next
  case False
  let ?vi = "bits_nat (bslice payload pos (pos + 4))"
  have vi: "get_uint payload 4 pos = Next (?vi, pos + 4)"
    using False by (intro get_uint_Next) simp_all
  have d: "decode_has_orbit s payload pos = run s
     (bindF (forF (satsys s) (pos + 4, [Validity (HAS_VI ! ?vi) ?vi]) (has_orbit_sys s payload))
        (\<lambda>(p, rows).
      Next (s\<lparr> stat_both := stat_both s + int pos,
                stat_bsat := stat_bsat s + (int p - int pos) \<rparr>, p, rows)))"
    using False by (simp add: decode_has_orbit_def vi HAS_VI_get)
  note lp = has_orbit_sys_loop [OF assms, of payload "pos + 4" "[Validity (HAS_VI ! ?vi) ?vi]"]
  show ?thesis
  proof (cases "0 < has_orbit_need s \<and> length payload < pos + 4 + has_orbit_need s")
    case True
    then have "forF (satsys s) (pos + 4, [Validity (HAS_VI ! ?vi) ?vi]) (has_orbit_sys s payload)
        = Return0"
      using lp by blast
    then show ?thesis using True by (simp add: d run_def)
  next
    case nshort: False
    then have "has_orbit_need s = 0 \<or> pos + 4 + has_orbit_need s \<le> length payload" by auto
    then obtain r' where
      "forF (satsys s) (pos + 4, [Validity (HAS_VI ! ?vi) ?vi]) (has_orbit_sys s payload)
        = Next (pos + 4 + has_orbit_need s, r')"
      using lp by blast
    then show ?thesis using nshort False by (simp add: d run_def)
  qed
qed


lemma ckful_mult_loop:
  "pos + 2 * length xs \<le> length payload \<Longrightarrow>
   \<exists>mult'. forF xs (pos, mult)
       (\<lambda>satsys (pos, multiplier).
          bindF (get_uint payload 2 pos) (\<lambda>(m, pos). Next (pos, multiplier @ [m + 1])))
     = Next (pos + 2 * length xs, mult') \<and> length mult' = length mult + length xs"
proof (induction xs arbitrary: pos mult)
  case Nil
  show ?case by simp
next
  case (Cons x xs)
  have rd: "get_uint payload 2 pos = Next (bits_nat (bslice payload pos (pos + 2)), pos + 2)"
    using Cons.prems by (intro get_uint_Next) simp_all
  have "pos + 2 + 2 * length xs \<le> length payload" using Cons.prems by simp
  from Cons.IH [OF this, of "mult @ [bits_nat (bslice payload pos (pos + 2)) + 1]"]
  show ?case by (auto simp: rd)
qed

lemma ckful_sat_short:
  "length payload < pos + 13 \<Longrightarrow> ckful_sat payload m g (pos, rows) = Return0"
  by (simp add: ckful_sat_def)

lemma ckful_sat_ok:
  assumes "pos + 13 \<le> length payload"
  shows "\<exists>r'. ckful_sat payload m g (pos, rows) = Next (pos + 13, r')"
proof -
  have c: "\<not> length payload < pos + 13" using assms by simp
  have l: "length (bslice payload pos (pos + 13)) = 13"
    using assms by (simp add: bslice_length)
  obtain v where v: "ckful_c0 (bslice payload pos (pos + 13)) m = Next v"
    using has_fields_return(4) [OF l] by blast
  have "ckful_sat payload m g (pos, rows) = Next (pos + 13, rows @ [CkfulRow g v m])"
    unfolding ckful_sat_def get_bits_def
    by (simp only: c v bindF.simps split if_False)
  then show ?thesis by blast
qed

lemma sum_list_enumerate:
  "sum_list (map (\<lambda>(i, x). f x) (enumerate n xs)) = (sum_list (map f xs) :: nat)"
  by (induction xs arbitrary: n) simp_all

lemma ckful_sys_loop:
  assumes "mask_keys_ok s" and "length multiplier = length (satsys s)"
  shows "(0 < n_sats s \<and> length payload < pos + 13 * n_sats s \<longrightarrow>
            forF (enumerate 0 (satsys s)) (pos, rows) (ckful_sys s payload multiplier) = Return0) \<and>
         (n_sats s = 0 \<or> pos + 13 * n_sats s \<le> length payload \<longrightarrow>
            (\<exists>r'. forF (enumerate 0 (satsys s)) (pos, rows) (ckful_sys s payload multiplier) =
                    Next (pos + 13 * n_sats s, r')))"
proof -
  let ?nd = "\<lambda>(i::nat, sys). 13 * length (sats_of s sys)"
  have N: "sum_list (map ?nd (enumerate 0 (satsys s))) = 13 * n_sats s"
    by (simp add: sum_list_enumerate n_sats_def sum_list_const_mult)
  have inner: "(0 < length sats \<and> length payload < p + 13 * length sats \<longrightarrow>
            forF sats (p, r) (\<lambda>gsys acc. ckful_sat payload m gsys acc) = Return0) \<and>
         (length sats = 0 \<or> p + 13 * length sats \<le> length payload \<longrightarrow>
            (\<exists>r'. forF sats (p, r) (\<lambda>gsys acc. ckful_sat payload m gsys acc) =
                    Next (p + 13 * length sats, r')))" for sats :: "string list" and p r m
  proof -
    have "(0 < sum_list (map (\<lambda>x. 13::nat) sats) \<and>
             length payload < p + sum_list (map (\<lambda>x. 13::nat) sats)
            \<longrightarrow> forF sats (p, r) (\<lambda>gsys acc. ckful_sat payload m gsys acc) = Return0) \<and>
         (sum_list (map (\<lambda>x. 13::nat) sats) = 0 \<or>
             p + sum_list (map (\<lambda>x. 13::nat) sats) \<le> length payload
            \<longrightarrow> (\<exists>r'. forF sats (p, r) (\<lambda>gsys acc. ckful_sat payload m gsys acc) =
                    Next (p + sum_list (map (\<lambda>x. 13::nat) sats), r')))"
      by (rule forF_need_pair) (simp_all add: ckful_sat_short ckful_sat_ok)
    then show ?thesis by (simp add: sum_list_const)
  qed
  have st: "x \<in> set (enumerate 0 (satsys s)) \<Longrightarrow>
      ckful_sys s payload multiplier x acc =
        forF (sats_of s (snd x)) acc
          (\<lambda>gsys acc. ckful_sat payload (multiplier ! fst x) gsys acc)" for x acc
  proof -
    assume x: "x \<in> set (enumerate 0 (satsys s))"
    then have i: "fst x < length multiplier" and m: "snd x \<in> set (satsys s)"
      using assms(2) nth_mem [of "fst x" "satsys s"] by (auto simp: in_set_enumerate_eq)
    show ?thesis
      by (cases x) (use i m in \<open>simp add: ckful_sys_def dict_get_def list_get_def
          mask_keys_okD [OF assms(1)]\<close>)
  qed
  have "(0 < sum_list (map ?nd (enumerate 0 (satsys s))) \<and>
           length payload < pos + sum_list (map ?nd (enumerate 0 (satsys s)))
            \<longrightarrow> forF (enumerate 0 (satsys s)) (pos, rows) (ckful_sys s payload multiplier)
                  = Return0) \<and>
         (sum_list (map ?nd (enumerate 0 (satsys s))) = 0 \<or>
           pos + sum_list (map ?nd (enumerate 0 (satsys s))) \<le> length payload
            \<longrightarrow> (\<exists>r'. forF (enumerate 0 (satsys s)) (pos, rows)
                         (ckful_sys s payload multiplier) =
                    Next (pos + sum_list (map ?nd (enumerate 0 (satsys s))), r')))"
  proof (rule forF_need_pair)
    fix x :: "nat \<times> string" and pos r
    assume x: "x \<in> set (enumerate 0 (satsys s))" and a: "0 < ?nd x"
      and b: "length payload < pos + ?nd x"
    obtain i sys where xx: "x = (i, sys)" by (cases x)
    have "0 < length (sats_of s sys) \<and> length payload < pos + 13 * length (sats_of s sys)"
      using a b by (simp add: xx)
    then have "forF (sats_of s sys) (pos, r) (ckful_sat payload (multiplier ! i)) = Return0"
      using inner [of "sats_of s sys" pos r "multiplier ! i"] by blast
    then show "ckful_sys s payload multiplier x (pos, r) = Return0"
      using st [OF x, of "(pos, r)"] by (simp add: xx)
  next
    fix x :: "nat \<times> string" and pos r
    assume x: "x \<in> set (enumerate 0 (satsys s))"
      and a: "?nd x = 0 \<or> pos + ?nd x \<le> length payload"
    obtain i sys where xx: "x = (i, sys)" by (cases x)
    have "length (sats_of s sys) = 0 \<or> pos + 13 * length (sats_of s sys) \<le> length payload"
      using a by (simp add: xx)
    then obtain r' where "forF (sats_of s sys) (pos, r) (ckful_sat payload (multiplier ! i))
        = Next (pos + 13 * length (sats_of s sys), r')"
      using inner [of "sats_of s sys" pos r "multiplier ! i"] by blast
    then show "\<exists>r'. ckful_sys s payload multiplier x (pos, r) = Next (pos + ?nd x, r')"
      using st [OF x, of "(pos, r)"] by (simp add: xx)
  qed
  then show ?thesis unfolding N by simp
qed

lemma decode_has_ckful_result:
  assumes "mask_keys_ok s"
  shows "if length payload < pos + 4 \<or> length payload < pos + 4 + 2 * length (satsys s) \<or>
            (0 < n_sats s \<and>
             length payload < pos + 4 + 2 * length (satsys s) + 13 * n_sats s)
         then decode_has_ckful s payload pos = Inr (s, 0, [])
         else \<exists>rows. decode_has_ckful s payload pos =
                Inr (s\<lparr> stat_both := stat_both s + int pos,
                        stat_bsat := stat_bsat s +
                          int (4 + 2 * length (satsys s) + 13 * n_sats s) \<rparr>,
                     pos + 4 + 2 * length (satsys s) + 13 * n_sats s, rows)"
proof (cases "length payload < pos + 4 \<or> length payload < pos + 4 + 2 * length (satsys s)")
  case True
  have vi: "\<not> length payload < pos + 4 \<Longrightarrow>
      get_uint payload 4 pos = Next (bits_nat (bslice payload pos (pos + 4)), pos + 4)"
    by (intro get_uint_Next) simp_all
  show ?thesis
    using True by (auto simp: decode_has_ckful_def run_def vi HAS_VI_get)
next
  case False
  let ?vi = "bits_nat (bslice payload pos (pos + 4))"
  let ?k = "length (satsys s)"
  have vi: "get_uint payload 4 pos = Next (?vi, pos + 4)"
    using False by (intro get_uint_Next) simp_all
  have "pos + 4 + 2 * ?k \<le> length payload" using False by simp
  from ckful_mult_loop [OF this, of "[]"] obtain mult where
    ml: "forF (satsys s) (pos + 4, [])
       (\<lambda>satsys (pos, multiplier).
          bindF (get_uint payload 2 pos) (\<lambda>(m, pos). Next (pos, multiplier @ [m + 1])))
       = Next (pos + 4 + 2 * ?k, mult)" and lm: "length mult = ?k"
    by auto
  have ml2: "forF (satsys s) (pos + 4, [])
       (\<lambda>satsys (pos, multiplier).
          bindF (get_uint payload 2 pos) (\<lambda>(m, pos). Next (pos, multiplier @ [Suc m])))
       = Next (pos + 4 + 2 * ?k, mult)"
    using ml by simp
  have d: "decode_has_ckful s payload pos = run s
     (bindF (forF (enumerate 0 (satsys s)) (pos + 4 + 2 * ?k, [Validity (HAS_VI ! ?vi) ?vi])
               (ckful_sys s payload mult))
        (\<lambda>(p, rows).
      Next (s\<lparr> stat_both := stat_both s + int pos,
                stat_bsat := stat_bsat s + (int p - int pos) \<rparr>, p, rows)))"
    using False by (simp add: decode_has_ckful_def vi HAS_VI_get ml2)
  note lp = ckful_sys_loop [OF assms lm, of payload "pos + 4 + 2 * ?k"
      "[Validity (HAS_VI ! ?vi) ?vi]"]
  show ?thesis
  proof (cases "0 < n_sats s \<and> length payload < pos + 4 + 2 * ?k + 13 * n_sats s")
    case True
    then have "forF (enumerate 0 (satsys s)) (pos + 4 + 2 * ?k, [Validity (HAS_VI ! ?vi) ?vi])
               (ckful_sys s payload mult) = Return0"
      using lp by blast
    then show ?thesis using True by (simp add: d run_def)
  next
    case nshort: False
    then have "n_sats s = 0 \<or> pos + 4 + 2 * ?k + 13 * n_sats s \<le> length payload" by auto
    then obtain r' where
      "forF (enumerate 0 (satsys s)) (pos + 4 + 2 * ?k, [Validity (HAS_VI ! ?vi) ?vi])
               (ckful_sys s payload mult) = Next (pos + 4 + 2 * ?k + 13 * n_sats s, r')"
      using lp by blast
    then show ?thesis using nshort False by (simp add: d run_def)
  qed
qed


lemma n_true_append: "n_true (xs @ ys) = n_true xs + n_true ys"
  by (simp add: n_true_def)

lemma n_true_take_add:
  "n_true (take (c + k) (drop pm cm)) =
     n_true (take c (drop pm cm)) + n_true (take k (drop (pm + c) cm))"
  by (simp add: take_add n_true_append add.commute)

lemma cells_loop_ok:
  fixes cm :: bits and w c len :: nat
  assumes ok: "\<And>x pm pos r. x \<in> set xs \<Longrightarrow> pm + c \<le> length cm \<Longrightarrow>
        n_true (take c (drop pm cm)) = 0 \<or> pos + w * n_true (take c (drop pm cm)) \<le> len \<Longrightarrow>
        \<exists>r'. body x (pm, pos, r) = Next (pm + c, pos + w * n_true (take c (drop pm cm)), r')"
    and "pm + c * length xs \<le> length cm"
    and "n_true (take (c * length xs) (drop pm cm)) = 0 \<or>
         pos + w * n_true (take (c * length xs) (drop pm cm)) \<le> len"
  shows "\<exists>r'. forF xs (pm, pos, r) body =
           Next (pm + c * length xs, pos + w * n_true (take (c * length xs) (drop pm cm)), r')"
  using assms
proof (induction xs arbitrary: pm pos r)
  case Nil
  show ?case by (simp add: n_true_def)
next
  case (Cons x xs)
  let ?a = "n_true (take c (drop pm cm))"
  let ?b = "n_true (take (c * length xs) (drop (pm + c) cm))"
  have sp: "n_true (take (c * length (x # xs)) (drop pm cm)) = ?a + ?b"
    using n_true_take_add [of c "c * length xs" pm cm] by simp
  have c1: "pm + c \<le> length cm" using Cons.prems(2) by simp
  have "?a = 0 \<or> pos + w * ?a \<le> len"
    using Cons.prems(3) unfolding sp by (auto simp: algebra_simps)
  from Cons.prems(1) [OF _ c1 this, of x r] obtain r1 where
    b: "body x (pm, pos, r) = Next (pm + c, pos + w * ?a, r1)" by auto
  have c2: "pm + c + c * length xs \<le> length cm" using Cons.prems(2) by (simp add: algebra_simps)
  have c3: "?b = 0 \<or> pos + w * ?a + w * ?b \<le> len"
    using Cons.prems(3) unfolding sp by (auto simp: algebra_simps)
  have "\<exists>r'. forF xs (pm + c, pos + w * ?a, r1) body =
           Next (pm + c + c * length xs, pos + w * ?a + w * ?b, r')"
    by (rule Cons.IH [OF _ c2 c3]) (rule Cons.prems(1), simp_all)
  then show ?case
    unfolding sp by (auto simp: b algebra_simps)
qed

lemma cells_loop_short:
  fixes cm :: bits and w c len :: nat
  assumes short: "\<And>x pm pos r. x \<in> set xs \<Longrightarrow> pm + c \<le> length cm \<Longrightarrow>
        0 < n_true (take c (drop pm cm)) \<Longrightarrow> len < pos + w * n_true (take c (drop pm cm)) \<Longrightarrow>
        body x (pm, pos, r) = Return0"
    and ok: "\<And>x pm pos r. x \<in> set xs \<Longrightarrow> pm + c \<le> length cm \<Longrightarrow>
        n_true (take c (drop pm cm)) = 0 \<or> pos + w * n_true (take c (drop pm cm)) \<le> len \<Longrightarrow>
        \<exists>r'. body x (pm, pos, r) = Next (pm + c, pos + w * n_true (take c (drop pm cm)), r')"
    and "pm + c * length xs \<le> length cm"
    and "0 < n_true (take (c * length xs) (drop pm cm))"
    and "len < pos + w * n_true (take (c * length xs) (drop pm cm))"
  shows "forF xs (pm, pos, r) body = Return0"
  using assms
proof (induction xs arbitrary: pm pos r)
  case Nil
  then show ?case by (simp add: n_true_def)
next
  case (Cons x xs)
  let ?a = "n_true (take c (drop pm cm))"
  let ?b = "n_true (take (c * length xs) (drop (pm + c) cm))"
  have sp: "n_true (take (c * length (x # xs)) (drop pm cm)) = ?a + ?b"
    using n_true_take_add [of c "c * length xs" pm cm] by simp
  have c1: "pm + c \<le> length cm" using Cons.prems(3) by simp
  show ?case
  proof (cases "0 < ?a \<and> len < pos + w * ?a")
    case True
    then show ?thesis using Cons.prems(1) [OF _ c1, of x pos r] by simp
  next
    case False
    then have "?a = 0 \<or> pos + w * ?a \<le> len" by auto
    from Cons.prems(2) [OF _ c1 this, of x r] obtain r1 where
      b: "body x (pm, pos, r) = Next (pm + c, pos + w * ?a, r1)" by auto
    have c2: "pm + c + c * length xs \<le> length cm"
      using Cons.prems(3) by (simp add: algebra_simps)
    have c4: "len < pos + w * ?a + w * ?b"
      using Cons.prems(5) unfolding sp by (simp add: algebra_simps)
    have c3: "0 < ?b"
    proof (rule ccontr)
      assume "\<not> 0 < ?b"
      then have "?b = 0" by simp
      then show False using c4 False Cons.prems(4) unfolding sp by simp
    qed
    have "forF xs (pm + c, pos + w * ?a, r1) body = Return0"
      by (rule Cons.IH [OF _ _ c2 c3 c4]) (rule Cons.prems(1), simp_all, rule Cons.prems(2), simp_all)
    then show ?thesis by (simp add: b)
  qed
qed


lemma take1_drop: "pm < length cm \<Longrightarrow> take (Suc 0) (drop pm cm) = [cm ! pm]"
  by (simp add: take_Suc_conv_app_nth [of 0 "drop pm cm", simplified])

lemma n_true_single: "n_true [b] = (if b then 1 else 0)"
  by (simp add: n_true_def)

lemma sig_cells_ok:
  fixes cm :: bits and w len :: nat and r :: "'r"
  assumes cell_act: "\<And>sig pm pos r. pm < length cm \<Longrightarrow> cm ! pm \<Longrightarrow> pos + w \<le> len \<Longrightarrow>
        \<exists>r'. cell sig (pm, pos, r) = Next (pm + 1, pos + w, r')"
    and cell_skip: "\<And>sig pm pos r. pm < length cm \<Longrightarrow> \<not> cm ! pm \<Longrightarrow>
        cell sig (pm, pos, r) = Next (pm + 1, pos, r)"
    and "pm + length ss \<le> length cm"
    and "n_true (take (length ss) (drop pm cm)) = 0 \<or>
         pos + w * n_true (take (length ss) (drop pm cm)) \<le> len"
  shows "\<exists>r'. forF ss (pm, pos, r) cell =
           Next (pm + length ss, pos + w * n_true (take (length ss) (drop pm cm)), r')"
proof -
  have "\<exists>r'. forF ss (pm, pos, r) cell =
           Next (pm + 1 * length ss, pos + w * n_true (take (1 * length ss) (drop pm cm)), r')"
  proof (rule cells_loop_ok [where c = 1 and len = len])
    fix x p q and r :: 'r
    assume a: "p + 1 \<le> length cm"
      and b: "n_true (take 1 (drop p cm)) = 0 \<or> q + w * n_true (take 1 (drop p cm)) \<le> len"
    have p: "p < length cm" using a by simp
    show "\<exists>r'. cell x (p, q, r) = Next (p + 1, q + w * n_true (take 1 (drop p cm)), r')"
    proof (cases "cm ! p")
      case True
      then have "q + w \<le> len" using b by (simp add: take1_drop [OF p] n_true_single)
      from cell_act [OF p True this, of x r] show ?thesis
        using True by (simp add: take1_drop [OF p] n_true_single)
    next
      case False
      then show ?thesis
        using cell_skip [OF p False, of x q r] by (simp add: take1_drop [OF p] n_true_single)
    qed
  qed (use assms(3,4) in simp_all)
  then show ?thesis by simp
qed

lemma sig_cells_short:
  fixes cm :: bits and w len :: nat and r :: "'r"
  assumes cell_short: "\<And>sig pm pos r. pm < length cm \<Longrightarrow> cm ! pm \<Longrightarrow> len < pos + w \<Longrightarrow>
        cell sig (pm, pos, r) = Return0"
    and cell_act: "\<And>sig pm pos r. pm < length cm \<Longrightarrow> cm ! pm \<Longrightarrow> pos + w \<le> len \<Longrightarrow>
        \<exists>r'. cell sig (pm, pos, r) = Next (pm + 1, pos + w, r')"
    and cell_skip: "\<And>sig pm pos r. pm < length cm \<Longrightarrow> \<not> cm ! pm \<Longrightarrow>
        cell sig (pm, pos, r) = Next (pm + 1, pos, r)"
    and "pm + length ss \<le> length cm"
    and "0 < n_true (take (length ss) (drop pm cm))"
    and "len < pos + w * n_true (take (length ss) (drop pm cm))"
  shows "forF ss (pm, pos, r) cell = Return0"
proof (rule cells_loop_short [where c = 1 and len = len and w = w and cm = cm])
  fix x p q and r :: 'r
  assume a: "p + 1 \<le> length cm" and b: "0 < n_true (take 1 (drop p cm))"
    and c: "len < q + w * n_true (take 1 (drop p cm))"
  have p: "p < length cm" using a by simp
  have t: "cm ! p" using b by (simp add: take1_drop [OF p] n_true_single split: if_splits)
  have "len < q + w" using c t by (simp add: take1_drop [OF p] n_true_single)
  from cell_short [OF p t this] show "cell x (p, q, r) = Return0" .
next
  fix x p q and r :: 'r
  assume a: "p + 1 \<le> length cm"
    and b: "n_true (take 1 (drop p cm)) = 0 \<or> q + w * n_true (take 1 (drop p cm)) \<le> len"
  have p: "p < length cm" using a by simp
  show "\<exists>r'. cell x (p, q, r) = Next (p + 1, q + w * n_true (take 1 (drop p cm)), r')"
  proof (cases "cm ! p")
    case True
    then have "q + w \<le> len" using b by (simp add: take1_drop [OF p] n_true_single)
    from cell_act [OF p True this, of x r] show ?thesis
      using True by (simp add: take1_drop [OF p] n_true_single)
  next
    case False
    then show ?thesis
      using cell_skip [OF p False, of x q r] by (simp add: take1_drop [OF p] n_true_single)
  qed
qed (use assms(4,5,6) in simp_all)

lemma sat_cells_ok:
  fixes cm :: bits and w len :: nat and r :: "'r"
  assumes cell_act: "\<And>g sig pm pos r. pm < length cm \<Longrightarrow> cm ! pm \<Longrightarrow> pos + w \<le> len \<Longrightarrow>
        \<exists>r'. cell g sig (pm, pos, r) = Next (pm + 1, pos + w, r')"
    and cell_skip: "\<And>g sig pm pos r. pm < length cm \<Longrightarrow> \<not> cm ! pm \<Longrightarrow>
        cell g sig (pm, pos, r) = Next (pm + 1, pos, r)"
    and fit: "length gs * length ss \<le> length cm"
    and enough: "n_true (take (length gs * length ss) cm) = 0 \<or>
         pos + w * n_true (take (length gs * length ss) cm) \<le> len"
  shows "\<exists>r'. forF gs (0, pos, r) (\<lambda>g acc. forF ss acc (cell g)) =
           Next (length gs * length ss, pos + w * n_true (take (length gs * length ss) cm), r')"
proof -
  have "\<exists>r'. forF gs (0, pos, r) (\<lambda>g acc. forF ss acc (cell g)) =
      Next (0 + length ss * length gs,
            pos + w * n_true (take (length ss * length gs) (drop 0 cm)), r')"
  proof (rule cells_loop_ok [where c = "length ss" and len = len])
    fix x p q and r :: 'r
    assume a: "p + length ss \<le> length cm"
      and b: "n_true (take (length ss) (drop p cm)) = 0 \<or>
              q + w * n_true (take (length ss) (drop p cm)) \<le> len"
    show "\<exists>r'. forF ss (p, q, r) (cell x) =
        Next (p + length ss, q + w * n_true (take (length ss) (drop p cm)), r')"
      by (rule sig_cells_ok [OF cell_act cell_skip a b])
  qed (use fit enough in \<open>simp_all add: mult.commute\<close>)
  then show ?thesis by (simp add: mult.commute)
qed

lemma sat_cells_short:
  fixes cm :: bits and w len :: nat and r :: "'r"
  assumes cell_short: "\<And>g sig pm pos r. pm < length cm \<Longrightarrow> cm ! pm \<Longrightarrow> len < pos + w \<Longrightarrow>
        cell g sig (pm, pos, r) = Return0"
    and cell_act: "\<And>g sig pm pos r. pm < length cm \<Longrightarrow> cm ! pm \<Longrightarrow> pos + w \<le> len \<Longrightarrow>
        \<exists>r'. cell g sig (pm, pos, r) = Next (pm + 1, pos + w, r')"
    and cell_skip: "\<And>g sig pm pos r. pm < length cm \<Longrightarrow> \<not> cm ! pm \<Longrightarrow>
        cell g sig (pm, pos, r) = Next (pm + 1, pos, r)"
    and fit: "length gs * length ss \<le> length cm"
    and some: "0 < n_true (take (length gs * length ss) cm)"
    and short: "len < pos + w * n_true (take (length gs * length ss) cm)"
  shows "forF gs (0, pos, r) (\<lambda>g acc. forF ss acc (cell g)) = Return0"
proof (rule cells_loop_short [where c = "length ss" and len = len and w = w and cm = cm])
  fix x p q and r :: 'r
  assume a: "p + length ss \<le> length cm"
    and b: "0 < n_true (take (length ss) (drop p cm))"
    and c: "len < q + w * n_true (take (length ss) (drop p cm))"
  show "forF ss (p, q, r) (cell x) = Return0"
    by (rule sig_cells_short [OF cell_short cell_act cell_skip a b c])
next
  fix x p q and r :: 'r
  assume a: "p + length ss \<le> length cm"
    and b: "n_true (take (length ss) (drop p cm)) = 0 \<or>
            q + w * n_true (take (length ss) (drop p cm)) \<le> len"
  show "\<exists>r'. forF ss (p, q, r) (cell x) =
      Next (p + length ss, q + w * n_true (take (length ss) (drop p cm)), r')"
    by (rule sig_cells_ok [OF cell_act cell_skip a b])
qed (use fit some short in \<open>simp_all add: mult.commute\<close>)

lemma forF_need_pair_ok:
  fixes nd :: "'x \<Rightarrow> nat" and len :: nat and r :: "'r"
  assumes ok: "\<And>x pos r. x \<in> set xs \<Longrightarrow> nd x = 0 \<or> pos + nd x \<le> len
                    \<Longrightarrow> \<exists>r'. body x (pos, r) = Next (pos + nd x, r')"
    and "sum_list (map nd xs) = 0 \<or> pos + sum_list (map nd xs) \<le> len"
  shows "\<exists>r'. forF xs (pos, r) body = Next (pos + sum_list (map nd xs), r')"
  using assms
proof (induction xs arbitrary: pos r)
  case Nil
  show ?case by simp
next
  case (Cons x xs)
  have "nd x = 0 \<or> pos + nd x \<le> len" using Cons.prems(2) by auto
  from Cons.prems(1) [OF _ this, of r] obtain r1 where
    b: "body x (pos, r) = Next (pos + nd x, r1)" by auto
  have "sum_list (map nd xs) = 0 \<or> pos + nd x + sum_list (map nd xs) \<le> len"
    using Cons.prems(2) by auto
  from Cons.IH [OF _ this, of r1] Cons.prems(1)
  obtain r2 where "forF xs (pos + nd x, r1) body = Next (pos + nd x + sum_list (map nd xs), r2)"
    by auto
  then show ?case by (simp add: b add.assoc)
qed

lemma ctx_okD:
  assumes "ctx_ok s" and "(i, sys) \<in> set (enumerate 0 (satsys s))"
  shows "gsys s sys = Some (sats_of s sys)" and "gsig s sys = Some (sigs_of s sys)"
    and "i < length (cellmask s)"
    and "length (sats_of s sys) * length (sigs_of s sys) \<le> length (cellmask s ! i)"
    and "sys_mask s (i, sys) =
           take (length (sats_of s sys) * length (sigs_of s sys)) (cellmask s ! i)"
  using assms
  by (auto simp: ctx_ok_def list_all_iff sats_of_def sigs_of_def sys_mask_def)

lemma n_active_sum:
  "sum_list (map (\<lambda>x. w * n_true (sys_mask s x)) (enumerate 0 (satsys s))) = w * n_active s"
  by (simp add: n_active_def sum_list_const_mult)

lemma sys_cells_step:
  assumes "ctx_ok s" and "(i, sys) \<in> set (enumerate 0 (satsys s))"
  shows "cells_sys s cellf (i, sys) (pos, r) =
         bindF (forF (sats_of s sys) (0, pos, r)
                  (\<lambda>g acc. forF (sigs_of s sys) acc (cellf i g)))
           (\<lambda>(pos_mask, pos, rows). Next (pos, rows))"
  by (simp add: cells_sys_def dict_get_def ctx_okD(1,2) [OF assms])

lemma sys_cells_ok:
  fixes w :: nat
  assumes ctx: "ctx_ok s" and wpos: "0 < w"
    and cell_act: "\<And>i g sig pm pos r. i < length (cellmask s) \<Longrightarrow>
        pm < length (cellmask s ! i) \<Longrightarrow> cellmask s ! i ! pm \<Longrightarrow> pos + w \<le> length payload \<Longrightarrow>
        \<exists>r'. cellf i g sig (pm, pos, r) = Next (pm + 1, pos + w, r')"
    and cell_skip: "\<And>i g sig pm pos r. i < length (cellmask s) \<Longrightarrow>
        pm < length (cellmask s ! i) \<Longrightarrow> \<not> cellmask s ! i ! pm \<Longrightarrow>
        cellf i g sig (pm, pos, r) = Next (pm + 1, pos, r)"
    and enough: "n_active s = 0 \<or> pos + w * n_active s \<le> length payload"
  shows "\<exists>r'. forF (enumerate 0 (satsys s)) (pos, rows) (cells_sys s cellf) =
         Next (pos + w * n_active s, r')"
  unfolding n_active_sum [symmetric]
proof (rule forF_need_pair_ok [where len = "length payload"])
  fix x :: "nat \<times> string" and p and r :: "row list"
  assume x: "x \<in> set (enumerate 0 (satsys s))"
    and a: "w * n_true (sys_mask s x) = 0 \<or> p + w * n_true (sys_mask s x) \<le> length payload"
  obtain i sys where xx: "x = (i, sys)" by (cases x)
  note d = ctx_okD [OF ctx x [unfolded xx]]
  have e: "n_true (take (length (sats_of s sys) * length (sigs_of s sys)) (cellmask s ! i)) = 0 \<or>
      p + w * n_true (take (length (sats_of s sys) * length (sigs_of s sys)) (cellmask s ! i))
        \<le> length payload"
    using a wpos by (auto simp: xx d(5))
  obtain r1 where "forF (sats_of s sys) (0, p, r)
       (\<lambda>g acc. forF (sigs_of s sys) acc (cellf i g)) =
     Next (length (sats_of s sys) * length (sigs_of s sys),
           p + w * n_true (take (length (sats_of s sys) * length (sigs_of s sys))
                              (cellmask s ! i)), r1)"
    using sat_cells_ok [where cell = "cellf i" and cm = "cellmask s ! i" and w = w
        and len = "length payload" and gs = "sats_of s sys" and ss = "sigs_of s sys"
        and pos = p and r = r, OF cell_act [OF d(3)] cell_skip [OF d(3)] d(4) e]
    by blast
  then show "\<exists>r'. cells_sys s cellf x (p, r) = Next (p + w * n_true (sys_mask s x), r')"
    unfolding xx sys_cells_step [OF ctx x [unfolded xx]] by (simp add: d(5))
qed (use enough in \<open>simp add: n_active_sum\<close>)

lemma sys_cells_short:
  fixes w :: nat
  assumes ctx: "ctx_ok s" and wpos: "0 < w"
    and cell_short: "\<And>i g sig pm pos r. i < length (cellmask s) \<Longrightarrow>
        pm < length (cellmask s ! i) \<Longrightarrow> cellmask s ! i ! pm \<Longrightarrow> length payload < pos + w \<Longrightarrow>
        cellf i g sig (pm, pos, r) = Return0"
    and cell_act: "\<And>i g sig pm pos r. i < length (cellmask s) \<Longrightarrow>
        pm < length (cellmask s ! i) \<Longrightarrow> cellmask s ! i ! pm \<Longrightarrow> pos + w \<le> length payload \<Longrightarrow>
        \<exists>r'. cellf i g sig (pm, pos, r) = Next (pm + 1, pos + w, r')"
    and cell_skip: "\<And>i g sig pm pos r. i < length (cellmask s) \<Longrightarrow>
        pm < length (cellmask s ! i) \<Longrightarrow> \<not> cellmask s ! i ! pm \<Longrightarrow>
        cellf i g sig (pm, pos, r) = Next (pm + 1, pos, r)"
    and some: "0 < n_active s" and short: "length payload < pos + w * n_active s"
  shows "forF (enumerate 0 (satsys s)) (pos, rows) (cells_sys s cellf) = Return0"
proof -
  let ?nd = "\<lambda>x. w * n_true (sys_mask s x)"
  have "(0 < sum_list (map ?nd (enumerate 0 (satsys s))) \<and>
           length payload < pos + sum_list (map ?nd (enumerate 0 (satsys s)))
            \<longrightarrow> forF (enumerate 0 (satsys s)) (pos, rows) (cells_sys s cellf) = Return0) \<and>
         (sum_list (map ?nd (enumerate 0 (satsys s))) = 0 \<or>
           pos + sum_list (map ?nd (enumerate 0 (satsys s))) \<le> length payload
            \<longrightarrow> (\<exists>r'. forF (enumerate 0 (satsys s)) (pos, rows) (cells_sys s cellf) =
                    Next (pos + sum_list (map ?nd (enumerate 0 (satsys s))), r')))"
  proof (rule forF_need_pair)
    fix x :: "nat \<times> string" and p and r :: "row list"
    assume x: "x \<in> set (enumerate 0 (satsys s))"
      and a: "0 < ?nd x" and b: "length payload < p + ?nd x"
    obtain i sys where xx: "x = (i, sys)" by (cases x)
    note d = ctx_okD [OF ctx x [unfolded xx]]
    have e: "0 < n_true (take (length (sats_of s sys) * length (sigs_of s sys)) (cellmask s ! i))"
      using a wpos by (simp add: xx d(5))
    have f: "length payload <
      p + w * n_true (take (length (sats_of s sys) * length (sigs_of s sys)) (cellmask s ! i))"
      using b by (simp add: xx d(5))
    have "forF (sats_of s sys) (0, p, r)
       (\<lambda>g acc. forF (sigs_of s sys) acc (cellf i g)) = Return0"
      by (rule sat_cells_short [where cell = "cellf i" and cm = "cellmask s ! i" and w = w
        and len = "length payload", OF cell_short [OF d(3)] cell_act [OF d(3)]
          cell_skip [OF d(3)] d(4) e f])
    then show "cells_sys s cellf x (p, r) = Return0"
      unfolding xx sys_cells_step [OF ctx x [unfolded xx]] by simp
  next
    fix x :: "nat \<times> string" and p and r :: "row list"
    assume x: "x \<in> set (enumerate 0 (satsys s))"
      and a: "?nd x = 0 \<or> p + ?nd x \<le> length payload"
    obtain i sys where xx: "x = (i, sys)" by (cases x)
    note d = ctx_okD [OF ctx x [unfolded xx]]
    have e: "n_true (take (length (sats_of s sys) * length (sigs_of s sys)) (cellmask s ! i)) = 0 \<or>
      p + w * n_true (take (length (sats_of s sys) * length (sigs_of s sys)) (cellmask s ! i))
        \<le> length payload"
      using a wpos by (auto simp: xx d(5))
    obtain r1 where "forF (sats_of s sys) (0, p, r)
       (\<lambda>g acc. forF (sigs_of s sys) acc (cellf i g)) =
     Next (length (sats_of s sys) * length (sigs_of s sys),
           p + w * n_true (take (length (sats_of s sys) * length (sigs_of s sys))
                              (cellmask s ! i)), r1)"
      using sat_cells_ok [where cell = "cellf i" and cm = "cellmask s ! i" and w = w
        and len = "length payload" and gs = "sats_of s sys" and ss = "sigs_of s sys"
        and pos = p and r = r, OF cell_act [OF d(3)] cell_skip [OF d(3)] d(4) e]
      by blast
    then show "\<exists>r'. cells_sys s cellf x (p, r) = Next (p + ?nd x, r')"
      unfolding xx sys_cells_step [OF ctx x [unfolded xx]] by (simp add: d(5))
  qed
  then show ?thesis using some short wpos by (simp add: n_active_sum)
qed


lemma st5_sys_cells: "st5_sys s payload = cells_sys s (st5_cell s payload)"
  by (simp add: st5_sys_def cells_sys_def)

lemma st5_cell_short:
  "i < length (cellmask s) \<Longrightarrow> pm < length (cellmask s ! i) \<Longrightarrow> cellmask s ! i ! pm \<Longrightarrow>
   length payload < pos + 17 \<Longrightarrow> st5_cell s payload i g sig (pm, pos, r) = Return0"
  by (simp add: st5_cell_def list_get_def bit_at_def)

lemma st5_cell_act:
  "i < length (cellmask s) \<Longrightarrow> pm < length (cellmask s ! i) \<Longrightarrow> cellmask s ! i ! pm \<Longrightarrow>
   pos + 17 \<le> length payload \<Longrightarrow>
   \<exists>r'. st5_cell s payload i g sig (pm, pos, r) = Next (pm + 1, pos + 17, r')"
  by (simp add: st5_cell_def list_get_def bit_at_def get_int_Next get_uint_Next)

lemma st5_cell_skip:
  "i < length (cellmask s) \<Longrightarrow> pm < length (cellmask s ! i) \<Longrightarrow> \<not> cellmask s ! i ! pm \<Longrightarrow>
   st5_cell s payload i g sig (pm, pos, r) = Next (pm + 1, pos, r)"
  by (simp add: st5_cell_def list_get_def bit_at_def)

lemma decode_cssr_st5_result:
  assumes "ctx_ok s"
  shows "if 0 < n_active s \<and> length payload < pos + 17 * n_active s
         then decode_cssr_st5 s payload pos = Inr (s, 0, [])
         else \<exists>rows. decode_cssr_st5 s payload pos =
                Inr (s\<lparr> stat_both := stat_both s + int pos,
                        stat_bsig := stat_bsig s + int (17 * n_active s) \<rparr>,
                     pos + 17 * n_active s, rows)"
proof (cases "0 < n_active s \<and> length payload < pos + 17 * n_active s")
  case True
  then have "forF (enumerate 0 (satsys s)) (pos, []) (cells_sys s (st5_cell s payload)) = Return0"
    by (intro sys_cells_short [where w = 17 and payload = payload, OF assms _
          st5_cell_short st5_cell_act st5_cell_skip]) simp_all
  then show ?thesis using True by (simp add: decode_cssr_st5_def st5_sys_cells run_def)
next
  case False
  then have "n_active s = 0 \<or> pos + 17 * n_active s \<le> length payload" by auto
  then have "\<exists>r'. forF (enumerate 0 (satsys s)) (pos, []) (cells_sys s (st5_cell s payload)) =
      Next (pos + 17 * n_active s, r')"
    by (intro sys_cells_ok [where w = 17 and payload = payload, OF assms _
          st5_cell_act st5_cell_skip]) simp_all
  then show ?thesis using False by (auto simp: decode_cssr_st5_def st5_sys_cells run_def)
qed

lemma pbias_sys_cells: "pbias_sys s payload = cells_sys s (pbias_cell s payload)"
  by (simp add: pbias_sys_def cells_sys_def)

lemma pbias_cell_short:
  "i < length (cellmask s) \<Longrightarrow> pm < length (cellmask s ! i) \<Longrightarrow> cellmask s ! i ! pm \<Longrightarrow>
   length payload < pos + 13 \<Longrightarrow> pbias_cell s payload i g sig (pm, pos, r) = Return0"
  by (simp add: pbias_cell_def list_get_def bit_at_def)

lemma pbias_cell_act:
  "i < length (cellmask s) \<Longrightarrow> pm < length (cellmask s ! i) \<Longrightarrow> cellmask s ! i ! pm \<Longrightarrow>
   pos + 13 \<le> length payload \<Longrightarrow>
   \<exists>r'. pbias_cell s payload i g sig (pm, pos, r) = Next (pm + 1, pos + 13, r')"
  by (simp add: pbias_cell_def list_get_def bit_at_def get_int_Next get_uint_Next)

lemma pbias_cell_skip:
  "i < length (cellmask s) \<Longrightarrow> pm < length (cellmask s ! i) \<Longrightarrow> \<not> cellmask s ! i ! pm \<Longrightarrow>
   pbias_cell s payload i g sig (pm, pos, r) = Next (pm + 1, pos, r)"
  by (simp add: pbias_cell_def list_get_def bit_at_def)

lemma decode_has_pbias_result:
  assumes "ctx_ok s"
  shows "if length payload < pos + 4 \<or>
            (0 < n_active s \<and> length payload < pos + 4 + 13 * n_active s)
         then decode_has_pbias s payload pos = Inr (s, 0, [])
         else \<exists>rows. decode_has_pbias s payload pos =
                Inr (s\<lparr> stat_both := stat_both s + int (pos + 4),
                        stat_bsig := stat_bsig s + int (13 * n_active s) \<rparr>,
                     pos + 4 + 13 * n_active s, rows)"
proof (cases "length payload < pos + 4")
  case True
  then show ?thesis by (simp add: decode_has_pbias_def run_def)
next
  case False
  let ?vi = "bits_nat (bslice payload pos (pos + 4))"
  let ?r0 = "[Validity (HAS_VI ! ?vi) ?vi]"
  have vi: "get_uint payload 4 pos = Next (?vi, pos + 4)"
    using False by (intro get_uint_Next) simp_all
  have d: "decode_has_pbias s payload pos = run s
     (bindF (forF (enumerate 0 (satsys s)) (pos + 4, ?r0) (cells_sys s (pbias_cell s payload)))
        (\<lambda>(p, rows).
      Next (s\<lparr> stat_both := stat_both s + int (pos + 4),
                stat_bsig := stat_bsig s + (int p - int (pos + 4)) \<rparr>, p, rows)))"
    using False by (simp add: decode_has_pbias_def vi HAS_VI_get pbias_sys_cells Let_def)
  show ?thesis
  proof (cases "0 < n_active s \<and> length payload < pos + 4 + 13 * n_active s")
    case True
    then have "forF (enumerate 0 (satsys s)) (pos + 4, ?r0) (cells_sys s (pbias_cell s payload))
        = Return0"
      by (intro sys_cells_short [where w = 13 and payload = payload, OF assms _
            pbias_cell_short pbias_cell_act pbias_cell_skip]) simp_all
    then show ?thesis using True by (simp add: d run_def)
  next
    case nshort: False
    then have "n_active s = 0 \<or> pos + 4 + 13 * n_active s \<le> length payload" by auto
    then have "\<exists>r'. forF (enumerate 0 (satsys s)) (pos + 4, ?r0)
        (cells_sys s (pbias_cell s payload)) = Next (pos + 4 + 13 * n_active s, r')"
      by (intro sys_cells_ok [where w = 13 and payload = payload, OF assms _
            pbias_cell_act pbias_cell_skip]) simp_all
    then obtain r' where "forF (enumerate 0 (satsys s)) (pos + 4, ?r0)
        (cells_sys s (pbias_cell s payload)) = Next (pos + 4 + 13 * n_active s, r')" by blast
    then show ?thesis using nshort False by (simp add: d run_def)
  qed
qed

lemma n_true_Cons: "n_true (b # bs) = (if b then 1 else 0) + n_true bs"
  by (simp add: n_true_def)

lemma count_sig_loop:
  fixes cm :: bits
  assumes c: "\<And>sig pm n. pm < length cm \<Longrightarrow>
        cell sig (pm, n) = Next (pm + 1, n + (if cm ! pm then 1 else 0))"
    and "pm + length ss \<le> length cm"
  shows "forF ss (pm, n) cell =
           Next (pm + length ss, n + n_true (take (length ss) (drop pm cm)))"
  using assms(2)
proof (induction ss arbitrary: pm n)
  case Nil
  show ?case by (simp add: n_true_def)
next
  case (Cons x xs)
  have p: "pm < length cm" using Cons.prems by simp
  have dr: "drop pm cm = cm ! pm # drop (Suc pm) cm"
    by (rule Cons_nth_drop_Suc [OF p, symmetric])
  have "forF xs (Suc pm, n + (if cm ! pm then 1 else 0)) cell =
      Next (Suc pm + length xs,
            n + (if cm ! pm then 1 else 0) + n_true (take (length xs) (drop (Suc pm) cm)))"
    by (rule Cons.IH) (use Cons.prems in simp)
  then show ?case by (simp add: c [OF p] dr n_true_Cons)
qed

lemma count_sat_loop:
  fixes cm :: bits
  assumes c: "\<And>sig pm n. pm < length cm \<Longrightarrow>
        cell sig (pm, n) = Next (pm + 1, n + (if cm ! pm then 1 else 0))"
    and "pm + length ss * length gs \<le> length cm"
  shows "forF gs (pm, n) (\<lambda>g acc. forF ss acc cell) =
           Next (pm + length ss * length gs,
                 n + n_true (take (length ss * length gs) (drop pm cm)))"
  using assms(2)
proof (induction gs arbitrary: pm n)
  case Nil
  show ?case by (simp add: n_true_def)
next
  case (Cons g gs)
  have a: "pm + length ss \<le> length cm" using Cons.prems by simp
  have b: "pm + length ss + length ss * length gs \<le> length cm" using Cons.prems by simp
  have sp: "n_true (take (length ss * length (g # gs)) (drop pm cm)) =
      n_true (take (length ss) (drop pm cm)) +
      n_true (take (length ss * length gs) (drop (pm + length ss) cm))"
    using n_true_take_add [of "length ss" "length ss * length gs" pm cm] by simp
  show ?case
    unfolding sp
    by (simp add: count_sig_loop [where cm = cm, OF c a] Cons.IH [OF b] add.assoc)
qed

lemma cb_count_sys_step:
  assumes "ctx_ok s" and "(i, sys) \<in> set (enumerate 0 (satsys s))"
  shows "cb_count_sys s (i, sys) n = Next (n + n_true (sys_mask s (i, sys)))"
proof -
  note d = ctx_okD [OF assms]
  have "forF (sats_of s sys) (0, n) (\<lambda>g acc. forF (sigs_of s sys) acc
          (\<lambda>gsig (pos_mask, nsigsat).
             bindF (list_get (cellmask s) i) (\<lambda>cm.
             bindF (bit_at cm pos_mask) (\<lambda>mask.
             if \<not> mask then Next (pos_mask + 1, nsigsat)
             else Next (pos_mask + 1, nsigsat + 1))))) =
        Next (0 + length (sigs_of s sys) * length (sats_of s sys),
              n + n_true (take (length (sigs_of s sys) * length (sats_of s sys))
                            (drop 0 (cellmask s ! i))))"
    by (rule count_sat_loop [where cm = "cellmask s ! i"])
       (use d(3,4) in \<open>simp_all add: list_get_def bit_at_def mult.commute\<close>)
  then show ?thesis
    by (simp add: cb_count_sys_def dict_get_def d(1,2,5) mult.commute)
qed

lemma cb_count_loop:
  assumes "ctx_ok s" and "set xs \<subseteq> set (enumerate 0 (satsys s))"
  shows "forF xs n (cb_count_sys s) = Next (n + sum_list (map (\<lambda>x. n_true (sys_mask s x)) xs))"
  using assms(2)
proof (induction xs arbitrary: n)
  case Nil
  show ?case by simp
next
  case (Cons x xs)
  obtain i sys where xx: "x = (i, sys)" by (cases x)
  have "(i, sys) \<in> set (enumerate 0 (satsys s))" using Cons.prems by (simp add: xx)
  from cb_count_sys_step [OF assms(1) this]
  show ?case using Cons.IH Cons.prems by (simp add: xx add.assoc)
qed

lemma cb_count: "ctx_ok s \<Longrightarrow> forF (enumerate 0 (satsys s)) 0 (cb_count_sys s) = Next (n_active s)"
  by (simp add: cb_count_loop n_active_def)

lemma cb_sys_cells: "cb_sys s payload = cells_sys s (cb_cell s payload)"
  by (simp add: cb_sys_def cells_sys_def)

lemma cb_cell_act:
  "i < length (cellmask s) \<Longrightarrow> pm < length (cellmask s ! i) \<Longrightarrow> cellmask s ! i ! pm \<Longrightarrow>
   pos + 11 \<le> length payload \<Longrightarrow>
   \<exists>r'. cb_cell s payload i g sig (pm, pos, r) = Next (pm + 1, pos + 11, r')"
  by (simp add: cb_cell_def list_get_def bit_at_def get_int_Next)

lemma cb_cell_skip:
  "i < length (cellmask s) \<Longrightarrow> pm < length (cellmask s ! i) \<Longrightarrow> \<not> cellmask s ! i ! pm \<Longrightarrow>
   cb_cell s payload i g sig (pm, pos, r) = Next (pm + 1, pos, r)"
  by (simp add: cb_cell_def list_get_def bit_at_def)

lemma decode_cssr_st4_result:
  assumes "ctx_ok s"
  shows "if length payload < pos + 11 * n_active s
         then decode_cssr_st4 s payload pos = Inr (s, 0, [])
         else \<exists>rows. decode_cssr_st4 s payload pos =
                Inr (s\<lparr> stat_both := stat_both s + int pos,
                        stat_bsig := stat_bsig s + int (11 * n_active s) \<rparr>,
                     pos + 11 * n_active s, rows)"
proof (cases "length payload < pos + 11 * n_active s")
  case True
  then show ?thesis
    by (simp add: decode_cssr_st4_def decode_code_bias_def cb_count [OF assms] run_def)
next
  case False
  then have "n_active s = 0 \<or> pos + 11 * n_active s \<le> length payload" by auto
  then have "\<exists>r'. forF (enumerate 0 (satsys s)) (pos, []) (cells_sys s (cb_cell s payload)) =
      Next (pos + 11 * n_active s, r')"
    by (intro sys_cells_ok [where w = 11 and payload = payload, OF assms _
          cb_cell_act cb_cell_skip]) simp_all
  then show ?thesis using False
    by (auto simp: decode_cssr_st4_def decode_code_bias_def cb_count [OF assms]
          cb_sys_cells run_def)
qed

lemma decode_has_cbias_result:
  assumes "ctx_ok s"
  shows "if length payload < pos + 4 \<or> length payload < pos + 4 + 11 * n_active s
         then decode_has_cbias s payload pos = Inr (s, 0, [])
         else \<exists>rows. decode_has_cbias s payload pos =
                Inr (s\<lparr> stat_both := stat_both s + int (pos + 4),
                        stat_bsig := stat_bsig s + int (11 * n_active s) \<rparr>,
                     pos + 4 + 11 * n_active s, rows)"
proof (cases "length payload < pos + 4")
  case True
  then show ?thesis
    by (simp add: decode_has_cbias_def decode_code_bias_def cb_count [OF assms] run_def)
next
  case False
  let ?vi = "bits_nat (bslice payload pos (pos + 4))"
  let ?r0 = "[Validity (HAS_VI ! ?vi) ?vi]"
  have vi: "get_uint payload 4 pos = Next (?vi, pos + 4)"
    using False by (intro get_uint_Next) simp_all
  have d: "decode_has_cbias s payload pos = run s
     (if length payload < pos + 4 + 11 * n_active s then Return0 else
      bindF (forF (enumerate 0 (satsys s)) (pos + 4, ?r0) (cells_sys s (cb_cell s payload)))
        (\<lambda>(p, rows).
      Next (s\<lparr> stat_both := stat_both s + int (pos + 4),
                stat_bsig := stat_bsig s + (int p - int (pos + 4)) \<rparr>, p, rows)))"
    using False
    by (simp add: decode_has_cbias_def decode_code_bias_def cb_count [OF assms] vi HAS_VI_get
          cb_sys_cells Let_def)
  show ?thesis
  proof (cases "length payload < pos + 4 + 11 * n_active s")
    case True
    then show ?thesis by (simp add: d run_def)
  next
    case nshort: False
    then have "n_active s = 0 \<or> pos + 4 + 11 * n_active s \<le> length payload" by auto
    then have "\<exists>r'. forF (enumerate 0 (satsys s)) (pos + 4, ?r0)
        (cells_sys s (cb_cell s payload)) = Next (pos + 4 + 11 * n_active s, r')"
      by (intro sys_cells_ok [where w = 11 and payload = payload, OF assms _
            cb_cell_act cb_cell_skip]) simp_all
    then obtain r' where "forF (enumerate 0 (satsys s)) (pos + 4, ?r0)
        (cells_sys s (cb_cell s payload)) = Next (pos + 4 + 11 * n_active s, r')" by blast
    then show ?thesis using nshort False by (simp add: d run_def)
  qed
qed


lemma head_tail_returns: "\<exists>s' p rows. head_tail s payload pos = Inr (s', p, rows)"
  by (simp add: head_tail_def fin_def get_uint_Next get_bits_def)

lemma head_subtype_returns: "\<exists>s' p rows. head_subtype s payload pos = Inr (s', p, rows)"
proof (cases "length payload < pos + 4")
  case True
  then show ?thesis by (simp add: head_subtype_def)
next
  case False
  then have g: "get_uint payload 4 pos = Next (bits_nat (bslice payload pos (pos + 4)), pos + 4)"
    by (intro get_uint_Next) simp_all
  have g20: "\<not> length payload < pos + 4 + 20 \<Longrightarrow> get_uint payload 20 (pos + 4) =
      Next (bits_nat (bslice payload (pos + 4) (pos + 4 + 20)), pos + 4 + 20)"
    by (intro get_uint_Next) simp_all
  have g12: "\<not> length payload < pos + 4 + 12 \<Longrightarrow> get_uint payload 12 (pos + 4) =
      Next (bits_nat (bslice payload (pos + 4) (pos + 4 + 12)), pos + 4 + 12)"
    by (intro get_uint_Next) simp_all
  let ?st = "bits_nat (bslice payload pos (pos + 4))"
  show ?thesis
  proof (cases "?st = 1")
    case st: True
    show ?thesis
    proof (cases "length payload < pos + 4 + 20")
      case True
      then show ?thesis using False st by (simp add: head_subtype_def g)
    next
      case l: False
      show ?thesis
        using False st l head_tail_returns by (simp add: head_subtype_def g g20 [OF l])
    qed
  next
    case st: False
    show ?thesis
    proof (cases "?st = 10 \<or> length payload < pos + 4 + 12")
      case True
      then show ?thesis using False st by (auto simp: head_subtype_def g)
    next
      case l: False
      then have l2: "\<not> length payload < pos + 4 + 12" by simp
      show ?thesis
        using False st l head_tail_returns by (simp add: head_subtype_def g g12 [OF l2])
    qed
  qed
qed

lemma decode_cssr_head_returns: "\<exists>s' p rows. decode_cssr_head s payload = Inr (s', p, rows)"
proof (cases "\<not> truthy payload \<or> length payload < 12")
  case True
  then show ?thesis by (auto simp: decode_cssr_head_def)
next
  case False
  then have g: "get_uint payload 12 0 = Next (bits_nat (bslice payload 0 (0 + 12)), 0 + 12)"
    by (intro get_uint_Next) auto
  show ?thesis
    using False head_subtype_returns by (simp add: decode_cssr_head_def g)
qed

lemma mask_keys_ok_all: "mask_keys_ok s \<Longrightarrow> \<forall>sys \<in> set (satsys s). gsys s sys \<noteq> None"
  by (simp add: mask_keys_ok_def list_all_iff)

text \<open>
  Claim C3, amended. The CSSR header decode and the decoders that test each read against
  the position never raise on a complete mask context, whatever the payload and the
  position: CSSR subtypes 2, 3 and 7 and the HAS orbit and clock full-set decoders for
  every object whose satellite systems all have an entry in the satellite dictionary;
  CSSR subtypes 4 and 5 and the HAS code and phase bias decoders for every object with a
  complete mask context. A payload shorter than the bits they need gives position 0 with
  the object unchanged and nothing traced; otherwise the position advances by exactly
  those bits and the statistics count them. The header decode returns for every object
  and payload. The RTCM SSR decoders are another matter: they check no length. The
  header decode raises \<^verbatim>\<open>InterpretError\<close> whenever the payload ends at or before the
  position it is called with, and so do the orbit, clock, code bias, URA and high-rate
  clock decoders whenever the header announced a satellite.
\<close>

theorem short_payload_outcome:
  "(mask_keys_ok s \<longrightarrow>
      decode_cssr_st2 s payload pos =
       (if 0 < st2_need s (satsys s) \<and> length payload < pos + st2_need s (satsys s)
        then Inr (s, 0, [])
        else Inr (s\<lparr> stat_both := stat_both s + int pos,
                     stat_bsat := stat_bsat s + int (st2_need s (satsys s)) \<rparr>,
                  pos + st2_need s (satsys s), st2_all_rows s payload (satsys s) pos)) \<and>
      decode_cssr_st3 s payload pos =
       (if 0 < st3_need s (satsys s) \<and> length payload < pos + st3_need s (satsys s)
        then Inr (s, 0, [])
        else Inr (s\<lparr> stat_both := stat_both s + int pos,
                     stat_bsat := stat_bsat s + int (st3_need s (satsys s)) \<rparr>,
                  pos + st3_need s (satsys s), st3_all_rows s payload (satsys s) pos)) \<and>
      decode_cssr_st7 s payload pos =
       (if length payload < 37 \<or> (0 < n_sats s \<and> length payload < pos + 6 * n_sats s)
        then Inr (s, 0, [])
        else Inr (s\<lparr> stat_both := stat_both s + int pos,
                     stat_bsat := stat_bsat s + int (6 * n_sats s) \<rparr>,
                  pos + 6 * n_sats s, [])) \<and>
      (if length payload < pos + 4 \<or>
          (0 < has_orbit_need s \<and> length payload < pos + 4 + has_orbit_need s)
       then decode_has_orbit s payload pos = Inr (s, 0, [])
       else \<exists>rows. decode_has_orbit s payload pos =
              Inr (s\<lparr> stat_both := stat_both s + int pos,
                      stat_bsat := stat_bsat s + int (4 + has_orbit_need s) \<rparr>,
                   pos + 4 + has_orbit_need s, rows)) \<and>
      (if length payload < pos + 4 \<or> length payload < pos + 4 + 2 * length (satsys s) \<or>
          (0 < n_sats s \<and>
           length payload < pos + 4 + 2 * length (satsys s) + 13 * n_sats s)
       then decode_has_ckful s payload pos = Inr (s, 0, [])
       else \<exists>rows. decode_has_ckful s payload pos =
              Inr (s\<lparr> stat_both := stat_both s + int pos,
                      stat_bsat := stat_bsat s +
                        int (4 + 2 * length (satsys s) + 13 * n_sats s) \<rparr>,
                   pos + 4 + 2 * length (satsys s) + 13 * n_sats s, rows))) \<and>
   (ctx_ok s \<longrightarrow>
      (if length payload < pos + 11 * n_active s
       then decode_cssr_st4 s payload pos = Inr (s, 0, [])
       else \<exists>rows. decode_cssr_st4 s payload pos =
              Inr (s\<lparr> stat_both := stat_both s + int pos,
                      stat_bsig := stat_bsig s + int (11 * n_active s) \<rparr>,
                   pos + 11 * n_active s, rows)) \<and>
      (if 0 < n_active s \<and> length payload < pos + 17 * n_active s
       then decode_cssr_st5 s payload pos = Inr (s, 0, [])
       else \<exists>rows. decode_cssr_st5 s payload pos =
              Inr (s\<lparr> stat_both := stat_both s + int pos,
                      stat_bsig := stat_bsig s + int (17 * n_active s) \<rparr>,
                   pos + 17 * n_active s, rows)) \<and>
      (if length payload < pos + 4 \<or> length payload < pos + 4 + 11 * n_active s
       then decode_has_cbias s payload pos = Inr (s, 0, [])
       else \<exists>rows. decode_has_cbias s payload pos =
              Inr (s\<lparr> stat_both := stat_both s + int (pos + 4),
                      stat_bsig := stat_bsig s + int (11 * n_active s) \<rparr>,
                   pos + 4 + 11 * n_active s, rows)) \<and>
      (if length payload < pos + 4 \<or>
          (0 < n_active s \<and> length payload < pos + 4 + 13 * n_active s)
       then decode_has_pbias s payload pos = Inr (s, 0, [])
       else \<exists>rows. decode_has_pbias s payload pos =
              Inr (s\<lparr> stat_both := stat_both s + int (pos + 4),
                      stat_bsig := stat_bsig s + int (13 * n_active s) \<rparr>,
                   pos + 4 + 13 * n_active s, rows))) \<and>
   (\<exists>s' p rows. decode_cssr_head s payload = Inr (s', p, rows)) \<and>
   (length payload \<le> pos \<longrightarrow>
      ssr_decode_head s payload pos sys mtype = Inl InterpretError) \<and>
   (length payload \<le> pos \<and> 0 < ssr_nsat s \<longrightarrow>
      ssr_decode_orbit s payload pos sys = Inl InterpretError \<and>
      ssr_decode_clock s payload pos sys = Inl InterpretError \<and>
      ssr_decode_code_bias s payload pos sys = Inl InterpretError \<and>
      ssr_decode_ura s payload pos sys = Inl InterpretError \<and>
      ssr_decode_hr_clock s payload pos sys = Inl InterpretError)"
  apply (intro conjI impI)
  subgoal by (simp add: decode_cssr_st2_result [OF mask_keys_ok_all])
  subgoal by (simp add: decode_cssr_st3_result [OF mask_keys_ok_all])
  subgoal by (erule decode_cssr_st7_result)
  subgoal by (erule decode_has_orbit_result)
  subgoal by (erule decode_has_ckful_result)
  subgoal by (erule decode_cssr_st4_result)
  subgoal by (erule decode_cssr_st5_result)
  subgoal by (erule decode_has_cbias_result)
  subgoal by (erule decode_has_pbias_result)
  subgoal by (rule decode_cssr_head_returns)
  subgoal by (erule ssr_head_raises)
  subgoal by (erule conjE, erule (1) ssr_orbit_raises_general)
  subgoal by (erule conjE, erule (1) ssr_clock_raises_general)
  subgoal by (erule conjE, erule (1) ssr_code_bias_raises_general)
  subgoal by (erule conjE, erule (1) ssr_ura_raises_general)
  subgoal by (erule conjE, erule (1) ssr_hr_clock_raises_general)
  done

lemma one_cell_keys: "mask_keys_ok one_cell"
  by (simp add: mask_keys_ok_def one_cell_def one_gps_def)

lemma one_cell_ctx: "ctx_ok one_cell"
  by (simp add: ctx_ok_def one_cell_def one_gps_def sats_of_def sigs_of_def)

lemma one_cell_needs:
  "st2_need one_cell (satsys one_cell) = 49" "st3_need one_cell (satsys one_cell) = 15"
  "n_sats one_cell = 1" "has_orbit_need one_cell = 45" "n_active one_cell = 1"
  "length (satsys one_cell) = 1" "ssr_nsat one_cell = 1"
  by (simp_all add: one_cell_def one_gps_def sats_of_def sigs_of_def iode_width_def
        n_sats_def has_orbit_need_def n_active_def sys_mask_def n_true_def)

theorem short_payload_outcome_witness:
  "mask_keys_ok one_cell \<and> ctx_ok one_cell \<and> 0 < ssr_nsat one_cell \<and>
   decode_cssr_st2 one_cell [] 0 = Inr (one_cell, 0, []) \<and>
   decode_cssr_st3 one_cell [] 0 = Inr (one_cell, 0, []) \<and>
   decode_cssr_st7 one_cell [] 0 = Inr (one_cell, 0, []) \<and>
   decode_has_orbit one_cell [] 0 = Inr (one_cell, 0, []) \<and>
   decode_has_ckful one_cell [] 0 = Inr (one_cell, 0, []) \<and>
   decode_cssr_st4 one_cell [] 0 = Inr (one_cell, 0, []) \<and>
   decode_cssr_st5 one_cell [] 0 = Inr (one_cell, 0, []) \<and>
   decode_has_cbias one_cell [] 0 = Inr (one_cell, 0, []) \<and>
   decode_has_pbias one_cell [] 0 = Inr (one_cell, 0, []) \<and>
   ssr_decode_head one_cell [] 0 ''G'' ''SSR clock'' = Inl InterpretError \<and>
   ssr_decode_orbit one_cell [] 0 ''G'' = Inl InterpretError \<and>
   ssr_decode_clock one_cell [] 0 ''G'' = Inl InterpretError \<and>
   ssr_decode_code_bias one_cell [] 0 ''G'' = Inl InterpretError \<and>
   ssr_decode_ura one_cell [] 0 ''G'' = Inl InterpretError \<and>
   ssr_decode_hr_clock one_cell [] 0 ''G'' = Inl InterpretError \<and>
   decode_cssr_st3 one_cell (replicate 14 True) 0 = Inr (one_cell, 0, []) \<and>
   decode_cssr_st7 one_cell (replicate 43 True) 37 =
     Inr (one_cell\<lparr> stat_both := stat_both one_cell + 37,
                    stat_bsat := stat_bsat one_cell + 6 \<rparr>, 43, [])"
  using short_payload_outcome [of one_cell "[]" 0 "''G''" "''SSR clock''"]
    short_payload_outcome [of one_cell "replicate 14 True" 0 "''G''" "''SSR clock''"]
    short_payload_outcome [of one_cell "replicate 43 True" 37 "''G''" "''SSR clock''"]
  by (simp add: one_cell_keys one_cell_ctx one_cell_needs)

text \<open>
  The header of an RTCM SSR orbit message announcing one satellite, with nothing behind
  it, and the empty payload.
\<close>

lemma ssr_head_56:
  "ssr_decode_head ssr_init (replicate 55 False @ [True]) 0 ''G'' ''SSR orbit'' =
     Inr (ssr_init\<lparr> ssr_mmi := [False], ssr_iod := 0, ssr_nsat := 1 \<rparr>, 56, [])"
  by (simp add: ssr_decode_head_def run_def get_uint_def get_bits_def uint_of_def bslice_def
      bits_nat_replicate_False bits_nat_append bits_nat_Cons bits_nat_Nil)

theorem ssr_orbit_raises:
  "ssr_decode_head ssr_init (replicate 55 False @ [True]) 0 ''G'' ''SSR orbit'' =
     Inr (ssr_init\<lparr> ssr_mmi := [False], ssr_iod := 0, ssr_nsat := 1 \<rparr>, 56, []) \<and>
   ssr_decode_orbit (ssr_init\<lparr> ssr_mmi := [False], ssr_iod := 0, ssr_nsat := 1 \<rparr>)
     (replicate 55 False @ [True]) 56 ''G'' = Inl InterpretError \<and>
   ssr_decode_head ssr_init [] 0 ''G'' ''SSR orbit'' = Inl InterpretError"
  by (simp add: ssr_head_56)
     (simp add: ssr_decode_orbit_def ssr_decode_head_def ssr_orbit_sat_def run_def get_uint_def
       uint_of_def bslice_def)

end
